theory Spec2Isabelle
  imports Complex_Main "HOL-Library.Word"
begin

section \<open>The working real type\<close>

text \<open>
  The integrator of \<^verbatim>\<open>naive_monte_carlo.hpp\<close> is a template over its number type
  \<^verbatim>\<open>Real\<close>. The embedding instantiates it with the reals extended by the three
  special values the code tests for and produces: the two infinities (bounds of
  unbounded axes, \<^verbatim>\<open>isfinite\<close>) and the quiet NaN (stored in \<^verbatim>\<open>m_dxs\<close>,
  produced by \<^verbatim>\<open>0/0\<close>). On finite values the arithmetic is exact: the operations
  neither round nor overflow. The rounding of binary64 is a function of its own,
  \<open>round64\<close> below, for the statements that depend on what rounding leaves of a value.
  On the special values the arithmetic follows IEEE 754, with one unsigned zero taken as
  the positive one: division by zero gives an infinity or NaN, it never raises, and
  every comparison with NaN is false.
\<close>

datatype xreal = NaN | MInf | Fin real | PInf

instantiation xreal :: "{zero, one, plus, uminus, times, ord}"
begin

definition zero_xreal :: xreal where
  "zero_xreal = Fin 0"

definition one_xreal :: xreal where
  "one_xreal = Fin 1"

fun plus_xreal :: "xreal \<Rightarrow> xreal \<Rightarrow> xreal" where
  "plus_xreal NaN y = NaN"
| "plus_xreal x NaN = NaN"
| "plus_xreal PInf MInf = NaN"
| "plus_xreal MInf PInf = NaN"
| "plus_xreal PInf y = PInf"
| "plus_xreal x PInf = PInf"
| "plus_xreal MInf y = MInf"
| "plus_xreal x MInf = MInf"
| "plus_xreal (Fin a) (Fin b) = Fin (a + b)"

fun uminus_xreal :: "xreal \<Rightarrow> xreal" where
  "uminus_xreal NaN = NaN"
| "uminus_xreal MInf = PInf"
| "uminus_xreal PInf = MInf"
| "uminus_xreal (Fin a) = Fin (- a)"

fun times_xreal :: "xreal \<Rightarrow> xreal \<Rightarrow> xreal" where
  "times_xreal NaN y = NaN"
| "times_xreal x NaN = NaN"
| "times_xreal (Fin a) (Fin b) = Fin (a * b)"
| "times_xreal (Fin a) PInf = (if a = 0 then NaN else if 0 < a then PInf else MInf)"
| "times_xreal (Fin a) MInf = (if a = 0 then NaN else if 0 < a then MInf else PInf)"
| "times_xreal PInf (Fin b) = (if b = 0 then NaN else if 0 < b then PInf else MInf)"
| "times_xreal MInf (Fin b) = (if b = 0 then NaN else if 0 < b then MInf else PInf)"
| "times_xreal PInf PInf = PInf"
| "times_xreal MInf MInf = PInf"
| "times_xreal PInf MInf = MInf"
| "times_xreal MInf PInf = MInf"

fun less_eq_xreal :: "xreal \<Rightarrow> xreal \<Rightarrow> bool" where
  "less_eq_xreal NaN y = False"
| "less_eq_xreal x NaN = False"
| "less_eq_xreal MInf y = True"
| "less_eq_xreal x PInf = True"
| "less_eq_xreal (Fin a) (Fin b) = (a \<le> b)"
| "less_eq_xreal x y = False"

fun less_xreal :: "xreal \<Rightarrow> xreal \<Rightarrow> bool" where
  "less_xreal NaN y = False"
| "less_xreal x NaN = False"
| "less_xreal (Fin a) (Fin b) = (a < b)"
| "less_xreal MInf MInf = False"
| "less_xreal PInf PInf = False"
| "less_xreal MInf y = True"
| "less_xreal x PInf = True"
| "less_xreal x y = False"

instance ..

end

instantiation xreal :: "{minus, inverse}"
begin

definition minus_xreal :: "xreal \<Rightarrow> xreal \<Rightarrow> xreal" where
  "minus_xreal x y = x + (- y)"

fun divide_xreal :: "xreal \<Rightarrow> xreal \<Rightarrow> xreal" where
  "divide_xreal NaN y = NaN"
| "divide_xreal x NaN = NaN"
| "divide_xreal (Fin a) (Fin b) =
     (if b = 0 then (if a = 0 then NaN else if 0 < a then PInf else MInf) else Fin (a / b))"
| "divide_xreal (Fin a) y = Fin 0"
| "divide_xreal PInf (Fin b) = (if 0 \<le> b then PInf else MInf)"
| "divide_xreal MInf (Fin b) = (if 0 \<le> b then MInf else PInf)"
| "divide_xreal x y = NaN"

fun inverse_xreal :: "xreal \<Rightarrow> xreal" where
  "inverse_xreal NaN = NaN"
| "inverse_xreal (Fin b) = (if b = 0 then PInf else Fin (1 / b))"
| "inverse_xreal y = Fin 0"

instance ..

end

instance xreal :: comm_monoid_add
proof
  fix a b c :: xreal
  show "a + b + c = a + (b + c)"
    by (cases a; cases b; cases c; simp)
  show "a + b = b + a"
    by (cases a; cases b; simp)
  show "0 + a = a"
    by (cases a; simp add: zero_xreal_def)
qed

instance xreal :: comm_monoid_mult
proof
  fix a b c :: xreal
  show "a * b * c = a * (b * c)"
    by (cases a; cases b; cases c; simp add: zero_less_mult_iff mult_less_0_iff;
        auto simp: not_less zero_less_mult_iff mult_less_0_iff)
  show "a * b = b * a"
    by (cases a; cases b; simp add: mult.commute)
  show "1 * a = a"
    by (cases a; simp add: one_xreal_def)
qed

instance xreal :: numeral ..

text \<open>\<^verbatim>\<open>std::sqrt\<close> and \<^verbatim>\<open>std::isfinite\<close> on the working type.\<close>

fun xsqrt :: "xreal \<Rightarrow> xreal" where
  "xsqrt NaN = NaN"
| "xsqrt MInf = NaN"
| "xsqrt PInf = PInf"
| "xsqrt (Fin a) = (if a < 0 then NaN else Fin (sqrt a))"

fun isfinite :: "xreal \<Rightarrow> bool" where
  "isfinite (Fin a) = True"
| "isfinite x = False"

text \<open>\<^verbatim>\<open>size_t\<close> of an LP64 platform; the conversion \<^verbatim>\<open>(Real) n\<close> of a count.\<close>

type_synonym size_t = "64 word"

definition Real_of_size :: "size_t \<Rightarrow> xreal" where
  "Real_of_size n = Fin (real (unat n))"

text \<open>
  \<^verbatim>\<open>std::numeric_limits<Real>\<close> and \<^verbatim>\<open>std::nextafter\<close> belong to the number type,
  not to the integrator: they are parameters of the model.
  \<^verbatim>\<open>numeric_limits<Real>::infinity()\<close> is \<open>PInf\<close> and \<^verbatim>\<open>quiet_NaN()\<close> is \<open>NaN\<close>.
\<close>

record real_traits =
  epsilon :: xreal
  min_positive :: xreal
  max_value :: xreal
  lowest :: xreal
  nextafter :: "xreal \<Rightarrow> xreal \<Rightarrow> xreal"

section \<open>The integrator object\<close>

datatype limit_classification =
  FINITE | LOWER_BOUND_INFINITE | UPPER_BOUND_INFINITE | DOUBLE_INFINITE

text \<open>
  What \<^verbatim>\<open>raise_domain_error\<close> is given: the constructor passes a fixed text and the
  offending upper bound, the worker a text built from the transformed point and the
  value the integrand returned. The formatting of the numbers is left out; the
  content of the message is kept as data.
\<close>

datatype domain_message = UpperLeLower xreal | EvaluatedAt "xreal list" xreal

datatype exn = DomainError domain_message | UserException nat

text \<open>
  Modelled from the spec: \<^verbatim>\<open>boost::math::policies::raise_domain_error\<close>
  (error_handling.hpp is not among the sources). Under the default policy it
  throws; the spec calls the exception a DomainError.
\<close>

definition raise_domain_error :: "domain_message \<Rightarrow> exn + 'a" where
  "raise_domain_error msg = Inl (DomainError msg)"

text \<open>
  The data members of \<^verbatim>\<open>naive_monte_carlo\<close>. The three \<^verbatim>\<open>std::map\<close>s keyed by
  the thread index are maps; thread counts and indices are natural numbers; the
  call counters and the seed are \<^verbatim>\<open>size_t\<close>. \<^verbatim>\<open>m_start\<close> (a wall-clock time) is
  left out, and \<^verbatim>\<open>m_integrand\<close> is the function \<open>m_integrand\<close> below.
\<close>

record naive_monte_carlo =
  m_num_threads :: nat
  m_seed :: size_t
  m_error_goal :: xreal
  m_done :: bool
  m_lbs :: "xreal list"
  m_dxs :: "xreal list"
  m_limit_types :: "limit_classification list"
  m_volume :: xreal
  m_total_calls :: size_t
  m_thread_calls :: "nat \<rightharpoonup> size_t"
  m_variance :: xreal
  m_thread_Ss :: "nat \<rightharpoonup> xreal"
  m_avg :: xreal
  m_thread_averages :: "nat \<rightharpoonup> xreal"
  m_exception :: "exn option"

text \<open>\<^verbatim>\<open>std::map::operator[]\<close>: a missing key reads as the value-initialised entry.\<close>

definition calls_at :: "naive_monte_carlo \<Rightarrow> nat \<Rightarrow> size_t" where
  "calls_at s i = (case m_thread_calls s i of Some c \<Rightarrow> c | None \<Rightarrow> 0)"

definition Ss_at :: "naive_monte_carlo \<Rightarrow> nat \<Rightarrow> xreal" where
  "Ss_at s i = (case m_thread_Ss s i of Some v \<Rightarrow> v | None \<Rightarrow> 0)"

definition averages_at :: "naive_monte_carlo \<Rightarrow> nat \<Rightarrow> xreal" where
  "averages_at s i = (case m_thread_averages s i of Some v \<Rightarrow> v | None \<Rightarrow> 0)"

subsection \<open>Public operations on the shared state\<close>

definition cancel :: "naive_monte_carlo \<Rightarrow> naive_monte_carlo" where
  "cancel s = (s\<lparr>m_seed := m_seed s * m_seed s\<rparr>)\<lparr>m_done := True\<rparr>"

definition variance :: "naive_monte_carlo \<Rightarrow> xreal" where
  "variance s = m_variance s"

definition current_error_estimate :: "naive_monte_carlo \<Rightarrow> xreal" where
  "current_error_estimate s = xsqrt (m_variance s / Real_of_size (m_total_calls s))"

definition update_target_error :: "xreal \<Rightarrow> naive_monte_carlo \<Rightarrow> naive_monte_carlo" where
  "update_target_error new_target_error s = s\<lparr>m_error_goal := new_target_error\<rparr>"

definition progress :: "naive_monte_carlo \<Rightarrow> xreal" where
  "progress s =
     (let r = m_error_goal s / current_error_estimate s
      in if 1 \<le> r * r then 1 else r * r)"

definition current_estimate :: "naive_monte_carlo \<Rightarrow> xreal" where
  "current_estimate s = m_avg s"

definition calls :: "naive_monte_carlo \<Rightarrow> size_t" where
  "calls s = m_total_calls s"

text \<open>
  The seed the controller hands to its master engine (\<^verbatim>\<open>m_integrate\<close>, lines 256-266):
  the stored seed, or a draw \<open>rd\<close> of \<^verbatim>\<open>std::random_device\<close> when the stored seed is 0.
\<close>

definition select_seed :: "size_t \<Rightarrow> naive_monte_carlo \<Rightarrow> size_t" where
  "select_seed rd s = (if m_seed s = 0 then rd else m_seed s)"

subsection \<open>Bounds and the coordinate transform\<close>

text \<open>
  The object as the constructor finds it before its loops: the vectors resized to the
  number of axes (value-initialised), \<^verbatim>\<open>m_volume = 1\<close>, the maps empty. The members
  the constructor assigns only at its end start from a placeholder.
\<close>

definition blank :: "nat \<Rightarrow> size_t \<Rightarrow> nat \<Rightarrow> naive_monte_carlo" where
  "blank threads seed n =
     \<lparr>m_num_threads = threads, m_seed = seed, m_error_goal = 0, m_done = False,
      m_lbs = replicate n 0, m_dxs = replicate n 0,
      m_limit_types = replicate n FINITE, m_volume = 1, m_total_calls = 0,
      m_thread_calls = Map.empty, m_variance = 0, m_thread_Ss = Map.empty, m_avg = 0,
      m_thread_averages = Map.empty, m_exception = None\<rparr>"

text \<open>The body of the bounds loop (lines 51-110) for axis \<open>i\<close>.\<close>

definition bounds_step ::
  "real_traits \<Rightarrow> bool \<Rightarrow> (xreal \<times> xreal) list \<Rightarrow> nat \<Rightarrow> naive_monte_carlo
   \<Rightarrow> exn + naive_monte_carlo" where
  "bounds_step L singular bounds i s =
     (let a = fst (bounds ! i); b = snd (bounds ! i) in
      if b \<le> a then raise_domain_error (UpperLeLower b)
      else if a = MInf then
        (if b = PInf then
           Inr (s\<lparr>m_limit_types := (m_limit_types s)[i := DOUBLE_INFINITE]\<rparr>)
         else
           Inr (s\<lparr>m_limit_types := (m_limit_types s)[i := LOWER_BOUND_INFINITE],
                  m_lbs := (m_lbs s)[i := b],
                  m_dxs := (m_dxs s)[i := NaN]\<rparr>))
      else if b = PInf then
        Inr (s\<lparr>m_limit_types := (m_limit_types s)[i := UPPER_BOUND_INFINITE],
               m_lbs := (m_lbs s)[i := (if singular then nextafter L a (max_value L) else a)],
               m_dxs := (m_dxs s)[i := NaN]\<rparr>)
      else
        (let lb = (if singular
                   then (if a = 0 then epsilon L else nextafter L a (max_value L))
                   else a);
             dx = (if singular then nextafter L b (lowest L) - lb else b - a)
         in Inr (s\<lparr>m_limit_types := (m_limit_types s)[i := FINITE],
                   m_lbs := (m_lbs s)[i := lb],
                   m_dxs := (m_dxs s)[i := dx],
                   m_volume := m_volume s * dx\<rparr>)))"

fun bounds_loop ::
  "real_traits \<Rightarrow> bool \<Rightarrow> (xreal \<times> xreal) list \<Rightarrow> nat list \<Rightarrow> naive_monte_carlo
   \<Rightarrow> exn + naive_monte_carlo" where
  "bounds_loop L singular bounds [] s = Inr s"
| "bounds_loop L singular bounds (i # is) s =
     (case bounds_step L singular bounds i s of
        Inl e \<Rightarrow> Inl e
      | Inr s' \<Rightarrow> bounds_loop L singular bounds is s')"

definition set_bounds ::
  "real_traits \<Rightarrow> bool \<Rightarrow> (xreal \<times> xreal) list \<Rightarrow> nat \<Rightarrow> size_t
   \<Rightarrow> exn + naive_monte_carlo" where
  "set_bounds L singular bounds threads seed =
     bounds_loop L singular bounds [0..<length bounds]
       (blank threads seed (length bounds))"

text \<open>
  The body of the loop of the lambda \<^verbatim>\<open>m_integrand\<close> (lines 115-145) for axis \<open>i\<close>,
  on the vector \<open>x\<close> it rewrites in place and the running coefficient.
\<close>

definition transform_axis ::
  "real_traits \<Rightarrow> naive_monte_carlo \<Rightarrow> nat \<Rightarrow> xreal list \<times> xreal \<Rightarrow> xreal list \<times> xreal" where
  "transform_axis L s i xc =
     (let x = fst xc; coeff = snd xc in
      if m_limit_types s ! i = FINITE then
        (x[i := m_lbs s ! i + x ! i * m_dxs s ! i], coeff)
      else if m_limit_types s ! i = UPPER_BOUND_INFINITE then
        (let t = x ! i;
             z = 1 / (1 + epsilon L - t)
         in (x[i := m_lbs s ! i + t * z], coeff * ((z * z) * (1 + epsilon L))))
      else if m_limit_types s ! i = LOWER_BOUND_INFINITE then
        (let t = x ! i;
             z = 1 / (t + xsqrt (min_positive L))
         in (x[i := m_lbs s ! i + (t - 1) * z], coeff * (z * z)))
      else
        (let t1 = 1 / (1 + epsilon L - x ! i);
             t2 = 1 / (x ! i + epsilon L)
         in (x[i := (2 * (x ! i) - 1) * t1 * t2 / 4], coeff * ((t1 * t1 + t2 * t2) / 4))))"

text \<open>
  The user's integrand may throw. \<open>m_integrand\<close> returns the rewritten vector together
  with the value: the caller passes \<open>x\<close> by reference and reads it afterwards.
\<close>

type_synonym integrand = "xreal list \<Rightarrow> exn + xreal"

definition m_integrand ::
  "real_traits \<Rightarrow> naive_monte_carlo \<Rightarrow> integrand \<Rightarrow> xreal list \<Rightarrow> exn + (xreal list \<times> xreal)" where
  "m_integrand L s F x =
     (let xc = fold (transform_axis L s) [0..<length x] (x, m_volume s) in
      case F (fst xc) of
        Inl e \<Rightarrow> Inl e
      | Inr y \<Rightarrow> Inr (fst xc, snd xc * y))"

text \<open>
  The transform as the specification tabulates it, per axis: the mapped coordinate and
  the Jacobian factor of a sample coordinate \<open>u\<close>.
\<close>

definition spec_point :: "real_traits \<Rightarrow> naive_monte_carlo \<Rightarrow> nat \<Rightarrow> xreal \<Rightarrow> xreal" where
  "spec_point L s i u =
     (case m_limit_types s ! i of
        FINITE \<Rightarrow> m_lbs s ! i + u * m_dxs s ! i
      | UPPER_BOUND_INFINITE \<Rightarrow>
          (let z = 1 / (1 + epsilon L - u) in m_lbs s ! i + u * z)
      | LOWER_BOUND_INFINITE \<Rightarrow>
          (let z = 1 / (u + xsqrt (min_positive L)) in m_lbs s ! i + (u - 1) * z)
      | DOUBLE_INFINITE \<Rightarrow>
          (let t1 = 1 / (1 + epsilon L - u); t2 = 1 / (u + epsilon L)
           in (2 * u - 1) * t1 * t2 / 4))"

definition spec_jacobian :: "real_traits \<Rightarrow> naive_monte_carlo \<Rightarrow> nat \<Rightarrow> xreal \<Rightarrow> xreal" where
  "spec_jacobian L s i u =
     (case m_limit_types s ! i of
        FINITE \<Rightarrow> 1
      | UPPER_BOUND_INFINITE \<Rightarrow>
          (let z = 1 / (1 + epsilon L - u) in (1 + epsilon L) * (z * z))
      | LOWER_BOUND_INFINITE \<Rightarrow>
          (let z = 1 / (u + xsqrt (min_positive L)) in z * z)
      | DOUBLE_INFINITE \<Rightarrow>
          (let t1 = 1 / (1 + epsilon L - u); t2 = 1 / (u + epsilon L)
           in (t1 * t1 + t2 * t2) / 4))"

subsection \<open>The random number engine\<close>

text \<open>
  \<^verbatim>\<open>RandomNumberGenerator\<close> is a template parameter: construction from a seed, a draw
  that advances the engine, and the declared range of the draws.
\<close>

record 'g rng =
  gen_seed :: "size_t \<Rightarrow> 'g"
  gen_next :: "'g \<Rightarrow> nat \<times> 'g"
  gen_min :: nat
  gen_max :: nat

definition inv_denom :: "'g rng \<Rightarrow> xreal" where
  "inv_denom R = 1 / Fin (real (gen_max R - gen_min R))"

text \<open>\<^verbatim>\<open>x[j] = (gen() - (gen.min)())*inv_denom\<close>, for one \<open>j\<close> and for the whole vector.\<close>

definition fill_step :: "'g rng \<Rightarrow> nat \<Rightarrow> xreal list \<times> 'g \<Rightarrow> xreal list \<times> 'g" where
  "fill_step R j xg =
     (let r = fst (gen_next R (snd xg))
      in ((fst xg)[j := Fin (real (r - gen_min R)) * inv_denom R], snd (gen_next R (snd xg))))"

definition fill_x :: "'g rng \<Rightarrow> xreal list \<Rightarrow> 'g \<Rightarrow> xreal list \<times> 'g" where
  "fill_x R x g = fold (fill_step R) [0..<length x] (x, g)"

subsection \<open>The constructor\<close>

text \<open>\<^verbatim>\<open>std::map::emplace\<close>: nothing happens when the key is present.\<close>

definition emplace :: "('a \<rightharpoonup> 'b) \<Rightarrow> 'a \<Rightarrow> 'b \<Rightarrow> ('a \<rightharpoonup> 'b)" where
  "emplace m i v = (case m i of None \<Rightarrow> m(i \<mapsto> v) | Some w \<Rightarrow> m)"

text \<open>
  The priming loop (lines 165-176): one evaluation per thread. The loop state is the
  object, the sample vector, the engine and the running sum \<^verbatim>\<open>avg\<close>. An exception of
  the integrand leaves the constructor.
\<close>

type_synonym 'g priming = "naive_monte_carlo \<times> xreal list \<times> 'g \<times> xreal"

definition prime_step ::
  "real_traits \<Rightarrow> 'g rng \<Rightarrow> integrand \<Rightarrow> nat \<Rightarrow> 'g priming \<Rightarrow> exn + 'g priming" where
  "prime_step L R F i p =
     (let s = fst p; x = fst (snd p); g = fst (snd (snd p)); avg = snd (snd (snd p));
          xg = fill_x R x g
      in case m_integrand L s F (fst xg) of
           Inl e \<Rightarrow> Inl e
         | Inr xy \<Rightarrow>
             Inr (s\<lparr>m_thread_averages := emplace (m_thread_averages s) i (snd xy),
                     m_thread_calls := emplace (m_thread_calls s) i 1,
                     m_thread_Ss := emplace (m_thread_Ss s) i 0\<rparr>,
                  fst xy, snd xg, avg + snd xy))"

fun prime_loop ::
  "real_traits \<Rightarrow> 'g rng \<Rightarrow> integrand \<Rightarrow> nat list \<Rightarrow> 'g priming \<Rightarrow> exn + 'g priming" where
  "prime_loop L R F [] p = Inr p"
| "prime_loop L R F (i # is) p =
     (case prime_step L R F i p of
        Inl e \<Rightarrow> Inl e
      | Inr p' \<Rightarrow> prime_loop L R F is p')"

text \<open>
  The constructor. \<open>rd\<close> is the draw of \<^verbatim>\<open>std::random_device\<close>, used when the seed
  is 0. Neither the error goal nor the priming values are checked.
\<close>

definition construct ::
  "real_traits \<Rightarrow> 'g rng \<Rightarrow> size_t \<Rightarrow> integrand \<Rightarrow> (xreal \<times> xreal) list \<Rightarrow> xreal \<Rightarrow> bool
   \<Rightarrow> nat \<Rightarrow> size_t \<Rightarrow> exn + naive_monte_carlo" where
  "construct L R rd F bounds error_goal singular threads seed =
     (case set_bounds L singular bounds threads seed of
        Inl e \<Rightarrow> Inl e
      | Inr s0 \<Rightarrow>
          (let seed' = (if seed = 0 then rd else seed);
               gen = gen_seed R seed';
               s1 = s0\<lparr>m_num_threads := max (m_num_threads s0) 1\<rparr>
           in case prime_loop L R F [0..<m_num_threads s1]
                     (s1, replicate (length (m_lbs s1)) 0, gen, 0) of
                Inl e \<Rightarrow> Inl e
              | Inr p \<Rightarrow>
                  Inr ((fst p)\<lparr>m_avg := snd (snd (snd p)) / Fin (real (m_num_threads s1)),
                               m_error_goal := error_goal,
                               m_done := False,
                               m_total_calls := of_nat (m_num_threads s1),
                               m_variance := max_value L\<rparr>)))"

subsection \<open>Aggregation by the controller\<close>

text \<open>
  The block that \<^verbatim>\<open>m_integrate\<close> runs at every poll (lines 274-290) and once more
  after the join (lines 306-322): the two copies are the same statements.
\<close>

definition sum_calls :: "naive_monte_carlo \<Rightarrow> size_t" where
  "sum_calls s = fold (\<lambda>i total_calls. total_calls + calls_at s i) [0..<m_num_threads s] 0"

definition aggregate_step ::
  "naive_monte_carlo \<Rightarrow> size_t \<Rightarrow> nat \<Rightarrow> xreal \<times> xreal \<Rightarrow> xreal \<times> xreal" where
  "aggregate_step s total_calls i va =
     (let t_calls = calls_at s i;
          avg = snd va + averages_at s i * (Real_of_size t_calls / Real_of_size total_calls);
          var = fst va + Ss_at s i
      in (var, avg))"

definition aggregate :: "naive_monte_carlo \<Rightarrow> naive_monte_carlo" where
  "aggregate s =
     (let total_calls = sum_calls s;
          va = fold (aggregate_step s total_calls) [0..<m_num_threads s] (0, 0)
      in s\<lparr>m_avg := snd va,
            m_variance := fst va / Real_of_size (total_calls - 1),
            m_total_calls := total_calls\<rparr>)"

subsection \<open>The per-thread accumulator\<close>

record accumulator =
  w_M1 :: xreal
  w_S :: xreal
  w_compensator :: xreal
  w_k :: size_t

text \<open>Lines 372-378 of \<^verbatim>\<open>m_thread_monte\<close>, in the order of the statements.\<close>

definition accumulate :: "xreal \<Rightarrow> accumulator \<Rightarrow> accumulator" where
  "accumulate f a =
     (let k' = w_k a + 1;
          term = (f - w_M1 a) / Real_of_size k';
          y1 = term - w_compensator a;
          M2 = w_M1 a + y1;
          compensator' = (M2 - w_M1 a) - y1;
          S' = w_S a + (f - w_M1 a) * (f - M2)
      in \<lparr>w_M1 = M2, w_S = S', w_compensator = compensator', w_k = k'\<rparr>)"

text \<open>The recurrence as the specification writes it (section 4.2), line by line.\<close>

definition spec_recurrence :: "xreal \<Rightarrow> accumulator \<Rightarrow> accumulator" where
  "spec_recurrence f a =
     (let kn = Real_of_size (w_k a + 1);
          y = (f - w_M1 a) / kn - w_compensator a
      in \<lparr>w_M1 = w_M1 a + y,
          w_S = w_S a + (f - w_M1 a) * (f - (w_M1 a + y)),
          w_compensator = ((w_M1 a + y) - w_M1 a) - y,
          w_k = w_k a + 1\<rparr>)"

subsection \<open>The worker\<close>

text \<open>
  The point printed by the error message (lines 363-368): the coordinates before the
  last, then the last one. For a vector of at least one coordinate this is the vector.
\<close>

definition message_point :: "xreal list \<Rightarrow> xreal list" where
  "message_point x = map (\<lambda>i. x ! i) [0..<length x - 1] @ [x ! (length x - 1)]"

text \<open>
  One pass of the inner loop of \<^verbatim>\<open>m_thread_monte\<close> (lines 353-378): draw, evaluate,
  test, accumulate. The loop state is the accumulator, the vector and the engine.
\<close>

type_synonym 'g sampling = "accumulator \<times> xreal list \<times> 'g"

definition sample_step ::
  "real_traits \<Rightarrow> 'g rng \<Rightarrow> naive_monte_carlo \<Rightarrow> integrand \<Rightarrow> 'g sampling \<Rightarrow> exn + 'g sampling" where
  "sample_step L R s F w =
     (let a = fst w; x = fst (snd w); g = snd (snd w);
          xg = fill_x R x g
      in case m_integrand L s F (fst xg) of
           Inl e \<Rightarrow> Inl e
         | Inr xf \<Rightarrow>
             if \<not> isfinite (snd xf)
             then raise_domain_error (EvaluatedAt (message_point (fst xf)) (snd xf))
             else Inr (accumulate (snd xf) a, fst xf, snd xg))"

definition magic_calls_before_update :: nat where
  "magic_calls_before_update = 2048"

primrec batch_loop ::
  "real_traits \<Rightarrow> 'g rng \<Rightarrow> naive_monte_carlo \<Rightarrow> integrand \<Rightarrow> nat \<Rightarrow> 'g sampling
   \<Rightarrow> exn + 'g sampling" where
  "batch_loop L R s F 0 w = Inr w"
| "batch_loop L R s F (Suc j) w =
     (case sample_step L R s F w of
        Inl e \<Rightarrow> Inl e
      | Inr w' \<Rightarrow> batch_loop L R s F j w')"

text \<open>The three stores after a batch (lines 380-382).\<close>

definition publish :: "nat \<Rightarrow> accumulator \<Rightarrow> naive_monte_carlo \<Rightarrow> naive_monte_carlo" where
  "publish thread_index a s =
     s\<lparr>m_thread_averages := (m_thread_averages s)(thread_index \<mapsto> w_M1 a),
       m_thread_Ss := (m_thread_Ss s)(thread_index \<mapsto> w_S a),
       m_thread_calls := (m_thread_calls s)(thread_index \<mapsto> w_k a)\<rparr>"

text \<open>The catch block (lines 385-390).\<close>

definition store_exception :: "exn \<Rightarrow> naive_monte_carlo \<Rightarrow> naive_monte_carlo" where
  "store_exception e s = (s\<lparr>m_done := True\<rparr>)\<lparr>m_exception := Some e\<rparr>"

subsection \<open>A run: controller and workers, interleaved\<close>

text \<open>
  The threads of a run are interleaved at the points where they touch shared state.
  A worker is at the head of its outer loop, inside a batch, or has returned. The
  controller is in its poll loop, waiting in the join, or has returned with a value or
  an exception. An event is one thread's next step; the events that cannot happen in
  the current state leave it unchanged. The three stores of a publication and the reads
  of one aggregation are each taken as one step.
\<close>

datatype worker_status = AtLoopHead | InBatch | Exited

record 'g worker =
  w_acc :: accumulator
  w_x :: "xreal list"
  w_gen :: 'g
  w_status :: worker_status

datatype controller_status = Polling | Joining | Returned "exn + xreal"

record 'g run_state =
  shared :: naive_monte_carlo
  threads :: "'g worker list"
  ctrl :: controller_status

datatype event =
  WorkerCheck nat | WorkerBatch nat | Poll | Join | Cancel | UpdateTarget xreal | Restart size_t

text \<open>The locals of \<^verbatim>\<open>m_thread_monte\<close> at its start (lines 332-342).\<close>

definition new_worker :: "'g rng \<Rightarrow> naive_monte_carlo \<Rightarrow> nat \<Rightarrow> size_t \<Rightarrow> 'g worker" where
  "new_worker R s thread_index seed =
     \<lparr>w_acc = \<lparr>w_M1 = averages_at s thread_index, w_S = Ss_at s thread_index,
               w_compensator = 0, w_k = calls_at s thread_index\<rparr>,
      w_x = replicate (length (m_lbs s)) 0,
      w_gen = gen_seed R seed,
      w_status = AtLoopHead\<rparr>"

definition spawn_step ::
  "'g rng \<Rightarrow> naive_monte_carlo \<Rightarrow> nat \<Rightarrow> 'g worker list \<times> 'g \<Rightarrow> 'g worker list \<times> 'g" where
  "spawn_step R s i wg =
     (fst wg @ [new_worker R s i (of_nat (fst (gen_next R (snd wg))))],
      snd (gen_next R (snd wg)))"

text \<open>
  \<^verbatim>\<open>integrate()\<close> and the start of \<^verbatim>\<open>m_integrate\<close> (lines 187-193, 252-271): clear the
  flag, choose the seed, seed the master engine and start one worker per thread with a
  draw of the master as its seed.
\<close>

definition integrate :: "'g rng \<Rightarrow> size_t \<Rightarrow> naive_monte_carlo \<Rightarrow> 'g run_state" where
  "integrate R rd s =
     (let s' = s\<lparr>m_done := False\<rparr>;
          gen = gen_seed R (select_seed rd s')
      in \<lparr>shared = s',
          threads = fst (fold (spawn_step R s') [0..<m_num_threads s'] ([], gen)),
          ctrl = Polling\<rparr>)"

definition all_exited :: "'g worker list \<Rightarrow> bool" where
  "all_exited ws = list_all (\<lambda>w. w_status w = Exited) ws"

text \<open>
  One event. \<open>WorkerCheck\<close> is the test \<^verbatim>\<open>while (!m_done)\<close>; \<open>WorkerBatch\<close> the 2048
  samples and the publication, or the catch block; \<open>Poll\<close> one pass of the do-while
  loop (lines 272-298); \<open>Join\<close> the return from the join once every worker has
  returned (lines 299-324); \<open>Cancel\<close> and \<open>UpdateTarget\<close> are calls of another thread;
  \<open>Restart\<close> is a further call of \<^verbatim>\<open>integrate()\<close> on the object once the previous
  call has returned, with the draw of the entropy source it would use.
\<close>

definition step ::
  "real_traits \<Rightarrow> 'g rng \<Rightarrow> integrand \<Rightarrow> event \<Rightarrow> 'g run_state \<Rightarrow> 'g run_state" where
  "step L R F ev rs =
     (case ev of
        WorkerCheck i \<Rightarrow>
          if i < length (threads rs) \<and> w_status (threads rs ! i) = AtLoopHead then
            rs\<lparr>threads := (threads rs)[i := (threads rs ! i)
                  \<lparr>w_status := (if m_done (shared rs) then Exited else InBatch)\<rparr>]\<rparr>
          else rs
      | WorkerBatch i \<Rightarrow>
          if i < length (threads rs) \<and> w_status (threads rs ! i) = InBatch then
            (let w = threads rs ! i in
             case batch_loop L R (shared rs) F magic_calls_before_update
                    (w_acc w, w_x w, w_gen w) of
               Inl e \<Rightarrow>
                 rs\<lparr>shared := store_exception e (shared rs),
                    threads := (threads rs)[i := w\<lparr>w_status := Exited\<rparr>]\<rparr>
             | Inr w' \<Rightarrow>
                 rs\<lparr>shared := publish i (fst w') (shared rs),
                    threads := (threads rs)[i :=
                      \<lparr>w_acc = fst w', w_x = fst (snd w'), w_gen = snd (snd w'),
                       w_status = AtLoopHead\<rparr>]\<rparr>)
          else rs
      | Poll \<Rightarrow>
          if ctrl rs = Polling then
            (let s = aggregate (shared rs) in
             if m_done s then rs\<lparr>shared := s, ctrl := Joining\<rparr>
             else if m_error_goal s < current_error_estimate s then rs\<lparr>shared := s\<rparr>
             else rs\<lparr>shared := s\<lparr>m_done := True\<rparr>, ctrl := Joining\<rparr>)
          else rs
      | Join \<Rightarrow>
          if ctrl rs = Joining \<and> all_exited (threads rs) then
            (case m_exception (shared rs) of
               Some e \<Rightarrow> rs\<lparr>ctrl := Returned (Inl e)\<rparr>
             | None \<Rightarrow>
                 (let s = aggregate (shared rs)
                  in rs\<lparr>shared := s, ctrl := Returned (Inr (m_avg s))\<rparr>))
          else rs
      | Cancel \<Rightarrow> rs\<lparr>shared := cancel (shared rs)\<rparr>
      | UpdateTarget v \<Rightarrow> rs\<lparr>shared := update_target_error v (shared rs)\<rparr>
      | Restart rd \<Rightarrow>
          (case ctrl rs of
             Returned r \<Rightarrow> integrate R rd (shared rs)
           | Polling \<Rightarrow> rs
           | Joining \<Rightarrow> rs))"

definition run ::
  "real_traits \<Rightarrow> 'g rng \<Rightarrow> integrand \<Rightarrow> event list \<Rightarrow> 'g run_state \<Rightarrow> 'g run_state" where
  "run L R F evs rs = fold (step L R F) evs rs"

section \<open>Concrete parameters\<close>

text \<open>
  The limits and \<^verbatim>\<open>nextafter\<close> of IEEE binary64 (\<^verbatim>\<open>double\<close>), read on the values a
  double can hold: 52 fraction bits, normal exponents from -1022 to 1023, subnormal
  spacing \<open>2 powi -1074\<close>.
\<close>

definition eps64 :: real where
  "eps64 = 2 powi (- 52)"

definition denorm_min64 :: real where
  "denorm_min64 = 2 powi (- 1074)"

definition min64 :: real where
  "min64 = 2 powi (- 1022)"

definition max64 :: real where
  "max64 = (2 - 2 powi (- 52)) * 2 powi 1023"

definition exponent64 :: "real \<Rightarrow> int" where
  "exponent64 r = max \<lfloor>log 2 \<bar>r\<bar>\<rfloor> (- 1022)"

definition next_up64 :: "real \<Rightarrow> real" where
  "next_up64 r =
     (if r = 0 then denorm_min64
      else if 0 < r then r + 2 powi (exponent64 r - 52)
      else if - r = 2 powi (exponent64 r) \<and> - 1022 < exponent64 r
      then r + 2 powi (exponent64 r - 53)
      else r + 2 powi (exponent64 r - 52))"

fun nextafter64 :: "xreal \<Rightarrow> xreal \<Rightarrow> xreal" where
  "nextafter64 NaN y = NaN"
| "nextafter64 x NaN = NaN"
| "nextafter64 (Fin a) (Fin b) =
     (if a = b then Fin b
      else if a < b then Fin (next_up64 a)
      else Fin (- next_up64 (- a)))"
| "nextafter64 (Fin a) PInf = (if a = max64 then PInf else Fin (next_up64 a))"
| "nextafter64 (Fin a) MInf = (if a = - max64 then MInf else Fin (- next_up64 (- a)))"
| "nextafter64 PInf PInf = PInf"
| "nextafter64 PInf y = Fin max64"
| "nextafter64 MInf MInf = MInf"
| "nextafter64 MInf y = Fin (- max64)"

text \<open>
  Rounding to binary64: the number an IEEE 754 operation returns for the exact result
  \<open>r\<close>, the nearest multiple of the spacing at \<open>r\<close>, the even one of two equally
  near, and an infinity when that is beyond the largest number. The arithmetic of
  \<open>xreal\<close> does not round; \<open>round64\<close> says what rounding leaves of an exact value.
\<close>

definition nearest_even :: "real \<Rightarrow> int" where
  "nearest_even x =
     (if x - of_int \<lfloor>x\<rfloor> < 1 / 2 then \<lfloor>x\<rfloor>
      else if 1 / 2 < x - of_int \<lfloor>x\<rfloor> then \<lfloor>x\<rfloor> + 1
      else if even \<lfloor>x\<rfloor> then \<lfloor>x\<rfloor> else \<lfloor>x\<rfloor> + 1)"

definition round64 :: "real \<Rightarrow> xreal" where
  "round64 r =
     (let q = of_int (nearest_even (r / 2 powi (exponent64 r - 52))) * 2 powi (exponent64 r - 52)
      in if max64 < q then PInf else if q < - max64 then MInf else Fin q)"

definition binary64 :: real_traits where
  "binary64 =
     \<lparr>epsilon = Fin eps64, min_positive = Fin min64,
      max_value = Fin max64, lowest = Fin (- max64), nextafter = nextafter64\<rparr>"

text \<open>
  \<^verbatim>\<open>std::minstd_rand\<close>, the linear congruential engine with multiplier 48271 and
  modulus \<open>2^31 - 1\<close>: a seed that is 0 modulo the modulus is replaced by 1, and the
  draws range over 1 .. \<open>2^31 - 2\<close>.
\<close>

definition minstd_rand :: "nat rng" where
  "minstd_rand =
     \<lparr>gen_seed = (\<lambda>seed. if unat seed mod 2147483647 = 0 then 1 else unat seed mod 2147483647),
      gen_next = (\<lambda>g. (48271 * g mod 2147483647, 48271 * g mod 2147483647)),
      gen_min = 1, gen_max = 2147483646\<rparr>"

text \<open>Two integrands: the constant 1, and \<open>1/x\<close> of the first coordinate.\<close>

definition constant_one :: integrand where
  "constant_one x = Inr 1"

definition reciprocal :: integrand where
  "reciprocal x = Inr (1 / (x ! 0))"

text \<open>
  The object that the constructor builds for the constant 1 on the unit interval, with
  one thread, seed 1 and no perturbation of the endpoints (lemma \<open>construct_unit_object\<close>).
\<close>

definition unit_object :: naive_monte_carlo where
  "unit_object =
     \<lparr>m_num_threads = 1, m_seed = 1, m_error_goal = Fin (1 / 1000), m_done = False,
      m_lbs = [Fin 0], m_dxs = [Fin 1], m_limit_types = [FINITE], m_volume = Fin 1,
      m_total_calls = 1, m_thread_calls = [0 \<mapsto> 1], m_variance = Fin max64,
      m_thread_Ss = [0 \<mapsto> Fin 0], m_avg = Fin 1, m_thread_averages = [0 \<mapsto> Fin 1],
      m_exception = None\<rparr>"

text \<open>
  The axes that the bounds loop sets for an upper-infinite, a lower-infinite and a
  doubly infinite axis, without perturbation (lemma \<open>set_bounds_three_axes\<close>).
\<close>

definition three_axes_object :: naive_monte_carlo where
  "three_axes_object =
     (blank 1 1 3)\<lparr>m_limit_types := [UPPER_BOUND_INFINITE, LOWER_BOUND_INFINITE, DOUBLE_INFINITE],
                  m_lbs := [Fin 0, Fin 0, Fin 0], m_dxs := [NaN, NaN, Fin 0]\<rparr>"

text \<open>
  The object the constructor builds for the constant 1 on the unit interval with two
  threads (lemma \<open>construct_two_thread_object\<close>), and the one it builds for \<open>1/x\<close> on
  the unit interval with one thread and the seed 225371434, for which the first draw of
  the worker's engine is the smallest one (lemma \<open>construct_singular_object\<close>).
\<close>

definition two_thread_object :: naive_monte_carlo where
  "two_thread_object =
     \<lparr>m_num_threads = 2, m_seed = 1, m_error_goal = Fin (1 / 1000), m_done = False,
      m_lbs = [Fin 0], m_dxs = [Fin 1], m_limit_types = [FINITE], m_volume = Fin 1,
      m_total_calls = 2, m_thread_calls = [0 \<mapsto> 1, 1 \<mapsto> 1], m_variance = Fin max64,
      m_thread_Ss = [0 \<mapsto> Fin 0, 1 \<mapsto> Fin 0], m_avg = Fin 1,
      m_thread_averages = [0 \<mapsto> Fin 1, 1 \<mapsto> Fin 1], m_exception = None\<rparr>"

definition singular_object :: naive_monte_carlo where
  "singular_object =
     \<lparr>m_num_threads = 1, m_seed = 225371434, m_error_goal = Fin (1 / 1000), m_done = False,
      m_lbs = [Fin 0], m_dxs = [Fin 1], m_limit_types = [FINITE], m_volume = Fin 1,
      m_total_calls = 1, m_thread_calls = [0 \<mapsto> 1], m_variance = Fin max64,
      m_thread_Ss = [0 \<mapsto> Fin 0], m_avg = Fin (2147483645 / 1899818558),
      m_thread_averages = [0 \<mapsto> Fin (2147483645 / 1899818558)], m_exception = None\<rparr>"

text \<open>The object after the failed run of \<open>singular_object\<close> (lemma \<open>singular_run\<close>).\<close>

definition failed_object :: naive_monte_carlo where
  "failed_object =
     singular_object\<lparr>m_done := True, m_variance := NaN,
       m_exception := Some (DomainError (EvaluatedAt [Fin 0] PInf))\<rparr>"

section \<open>Predicates used in the proofs\<close>

text \<open>The state of the bounds loop after the axes below \<open>j\<close>.\<close>

definition volume_inv :: "nat \<Rightarrow> nat \<Rightarrow> naive_monte_carlo \<Rightarrow> bool" where
  "volume_inv n j s \<longleftrightarrow>
     length (m_lbs s) = n \<and> length (m_dxs s) = n \<and> length (m_limit_types s) = n \<and>
     m_volume s =
       prod_list (map (\<lambda>i. m_dxs s ! i) (filter (\<lambda>i. m_limit_types s ! i = FINITE) [0..<j]))"

text \<open>Two objects with the same axes, thread count, seed and stored exception.\<close>

definition same_axes :: "naive_monte_carlo \<Rightarrow> naive_monte_carlo \<Rightarrow> bool" where
  "same_axes s t \<longleftrightarrow>
     m_lbs t = m_lbs s \<and> m_dxs t = m_dxs s \<and> m_limit_types t = m_limit_types s \<and>
     m_volume t = m_volume s \<and> m_num_threads t = m_num_threads s \<and> m_seed t = m_seed s \<and>
     m_exception t = m_exception s"

text \<open>
  The accumulator a worker loads from its slot; the sum of the call counters as a
  natural number; the slots while the priming loop runs; the slots that two objects
  share.
\<close>

definition slot_acc :: "naive_monte_carlo \<Rightarrow> nat \<Rightarrow> accumulator" where
  "slot_acc s i =
     \<lparr>w_M1 = averages_at s i, w_S = Ss_at s i, w_compensator = 0, w_k = calls_at s i\<rparr>"

definition total_unat :: "naive_monte_carlo \<Rightarrow> nat" where
  "total_unat s = (\<Sum>i<m_num_threads s. unat (calls_at s i))"

definition primed :: "nat \<Rightarrow> naive_monte_carlo \<Rightarrow> bool" where
  "primed n s \<longleftrightarrow>
     (\<forall>i. (i < n \<longrightarrow> m_thread_calls s i = Some 1 \<and> m_thread_Ss s i = Some 0 \<and>
                    m_thread_averages s i \<noteq> None) \<and>
          (n \<le> i \<longrightarrow> m_thread_calls s i = None \<and> m_thread_Ss s i = None \<and>
                    m_thread_averages s i = None))"

definition same_slots :: "naive_monte_carlo \<Rightarrow> naive_monte_carlo \<Rightarrow> bool" where
  "same_slots s t \<longleftrightarrow>
     m_num_threads t = m_num_threads s \<and> m_thread_calls t = m_thread_calls s \<and>
     m_thread_Ss t = m_thread_Ss s \<and> m_thread_averages t = m_thread_averages s"

text \<open>
  The call counts in a run of \<open>T\<close> threads: every slot holds at least the priming call,
  a worker between two batches holds the count of its slot, the slots sum to at most
  \<open>budget\<close>, and the published total lies between the thread count and the sum of the
  slots.
\<close>

definition count_inv :: "nat \<Rightarrow> nat \<Rightarrow> 'g run_state \<Rightarrow> bool" where
  "count_inv T budget rs \<longleftrightarrow>
     m_num_threads (shared rs) = T \<and>
     length (threads rs) = T \<and>
     (\<forall>i<T. 1 \<le> unat (calls_at (shared rs) i) \<and>
            w_k (w_acc (threads rs ! i)) = calls_at (shared rs) i) \<and>
     total_unat (shared rs) \<le> budget \<and>
     T \<le> unat (m_total_calls (shared rs)) \<and>
     unat (m_total_calls (shared rs)) \<le> total_unat (shared rs)"

text \<open>What holds once the controller has returned.\<close>

definition returned_ok :: "'g run_state \<Rightarrow> bool" where
  "returned_ok rs \<longleftrightarrow>
     (\<forall>r. ctrl rs = Returned r \<longrightarrow>
        all_exited (threads rs) \<and>
        r = (case m_exception (shared rs) of
               Some e \<Rightarrow> Inl e
             | None \<Rightarrow> Inr (m_avg (shared rs))) \<and>
        (m_exception (shared rs) = None \<longrightarrow>
           m_avg (shared rs) = m_avg (aggregate (shared rs))))"

text \<open>
  The history of the exception slot: the exception that an event makes a worker store,
  if any, and the exceptions that the workers store in the course of a sequence of
  events, in the order of the stores.
\<close>

definition raised_by ::
  "real_traits \<Rightarrow> 'g rng \<Rightarrow> integrand \<Rightarrow> event \<Rightarrow> 'g run_state \<Rightarrow> exn option" where
  "raised_by L R F ev rs =
     (case ev of
        WorkerBatch i \<Rightarrow>
          if i < length (threads rs) \<and> w_status (threads rs ! i) = InBatch then
            (case batch_loop L R (shared rs) F magic_calls_before_update
                    (w_acc (threads rs ! i), w_x (threads rs ! i), w_gen (threads rs ! i)) of
               Inl e \<Rightarrow> Some e
             | Inr w' \<Rightarrow> None)
          else None
      | _ \<Rightarrow> None)"

primrec raised ::
  "real_traits \<Rightarrow> 'g rng \<Rightarrow> integrand \<Rightarrow> event list \<Rightarrow> 'g run_state \<Rightarrow> exn list" where
  "raised L R F [] rs = []"
| "raised L R F (ev # evs) rs =
     (case raised_by L R F ev rs of Some e \<Rightarrow> [e] | None \<Rightarrow> [])
       @ raised L R F evs (step L R F ev rs)"

section \<open>Arithmetic of the working type\<close>

lemma Fin_numeral: "(numeral n :: xreal) = Fin (numeral n)"
proof (induction n)
  case One
  show ?case by (simp add: one_xreal_def)
next
  case (Bit0 n)
  have "(numeral (num.Bit0 n) :: xreal) = numeral n + numeral n"
    by (rule numeral_Bit0)
  also have "\<dots> = Fin (numeral n + numeral n)"
    by (simp only: Bit0 plus_xreal.simps)
  also have "\<dots> = Fin (numeral (num.Bit0 n))"
    by (simp only: numeral_Bit0)
  finally show ?case .
next
  case (Bit1 n)
  have "(numeral (num.Bit1 n) :: xreal) = numeral n + numeral n + 1"
    by (rule numeral_Bit1)
  also have "\<dots> = Fin (numeral n + numeral n + 1)"
    by (simp only: Bit1 plus_xreal.simps one_xreal_def)
  also have "\<dots> = Fin (numeral (num.Bit1 n))"
    by (simp only: numeral_Bit1)
  finally show ?case .
qed

lemma Fin_minus [simp]: "Fin a - Fin b = Fin (a - b)"
  by (simp add: minus_xreal_def)

lemma Fin_zero: "(0 :: xreal) = Fin 0"
  by (simp add: zero_xreal_def)

lemma Fin_one: "(1 :: xreal) = Fin 1"
  by (simp add: one_xreal_def)

lemmas Fin_consts = Fin_zero Fin_one Fin_numeral

section \<open>Storing the error goal\<close>

text \<open>
  C10. \<^verbatim>\<open>update_target_error\<close> stores its argument as the error goal whatever it is
  (zero, a negative number, an infinity and NaN included), changes nothing else, and
  has no failing branch: it is a total function into states, not into a result type.
\<close>

theorem update_target_error_unconditional:
  "m_error_goal (update_target_error v s) = v
   \<and> update_target_error v s = s\<lparr>m_error_goal := v\<rparr>
   \<and> m_error_goal (update_target_error NaN s) = NaN
   \<and> m_error_goal (update_target_error 0 s) = 0
   \<and> m_error_goal (update_target_error (Fin (- 1)) s) = Fin (- 1)"
  by (simp add: update_target_error_def)

section \<open>Sums, folds and loops\<close>

lemma fold_add_upt:
  fixes f :: "nat \<Rightarrow> 'a::comm_monoid_add"
  shows "fold (\<lambda>i t. t + f i) [0..<n] z = z + sum f {..<n}"
  by (induction n) (simp_all add: add.assoc)

lemma sum_calls_eq: "sum_calls s = (\<Sum>i<m_num_threads s. calls_at s i)"
  by (simp add: sum_calls_def fold_add_upt)

lemma fold_aggregate_step:
  "fold (aggregate_step s T) [0..<n] (v, a) =
     (v + (\<Sum>i<n. Ss_at s i),
      a + (\<Sum>i<n. averages_at s i * (Real_of_size (calls_at s i) / Real_of_size T)))"
  by (induction n) (simp_all add: aggregate_step_def add.assoc)

lemma accumulate_is_recurrence: "accumulate f a = spec_recurrence f a"
  by (simp add: accumulate_def spec_recurrence_def Let_def)

lemma transform_axis_spec:
  "transform_axis L s i (x, c) =
     (x[i := spec_point L s i (x ! i)], c * spec_jacobian L s i (x ! i))"
  by (cases "m_limit_types s ! i")
    (simp_all add: transform_axis_def spec_point_def spec_jacobian_def Let_def mult.commute)

lemma transform_fold:
  assumes "j \<le> length u"
  shows "fold (transform_axis L s) [0..<j] (u, c) =
     (map (\<lambda>i. if i < j then spec_point L s i (u ! i) else u ! i) [0..<length u],
      c * prod_list (map (\<lambda>i. spec_jacobian L s i (u ! i)) [0..<j]))"
  using assms
proof (induction j)
  case 0
  show ?case by (simp add: map_nth)
next
  case (Suc j)
  then have j: "j < length u" by simp
  let ?xs = "map (\<lambda>i. if i < j then spec_point L s i (u ! i) else u ! i) [0..<length u]"
  have nth: "?xs ! j = u ! j" using j by simp
  have upd: "?xs[j := spec_point L s j (u ! j)] =
      map (\<lambda>i. if i < Suc j then spec_point L s i (u ! i) else u ! i) [0..<length u]"
    by (rule nth_equalityI) (auto simp: nth_list_update less_Suc_eq)
  show ?case
    using Suc.IH j by (simp add: transform_axis_spec nth upd mult.assoc)
qed

lemma transform_fold_all:
  "fold (transform_axis L s) [0..<length u] (u, c) =
     (map (\<lambda>i. spec_point L s i (u ! i)) [0..<length u],
      c * prod_list (map (\<lambda>i. spec_jacobian L s i (u ! i)) [0..<length u]))"
proof -
  have "map (\<lambda>i. if i < length u then spec_point L s i (u ! i) else u ! i) [0..<length u] =
      map (\<lambda>i. spec_point L s i (u ! i)) [0..<length u]"
    by (rule map_cong) simp_all
  then show ?thesis by (simp add: transform_fold)
qed

lemma m_integrand_spec:
  "m_integrand L s F u =
     (case F (map (\<lambda>i. spec_point L s i (u ! i)) [0..<length u]) of
        Inl e \<Rightarrow> Inl e
      | Inr y \<Rightarrow>
          Inr (map (\<lambda>i. spec_point L s i (u ! i)) [0..<length u],
               m_volume s * prod_list (map (\<lambda>i. spec_jacobian L s i (u ! i)) [0..<length u]) * y))"
  by (simp add: m_integrand_def transform_fold_all Let_def split: sum.splits)

lemma bounds_loop_append:
  "bounds_loop L sg bs (xs @ ys) s =
     (case bounds_loop L sg bs xs s of
        Inl e \<Rightarrow> Inl e
      | Inr s' \<Rightarrow> bounds_loop L sg bs ys s')"
  by (induction xs arbitrary: s) (simp_all split: sum.splits)

lemma filter_map_cong_below:
  assumes "\<And>i. i < j \<Longrightarrow> f i = f' i" "\<And>i. i < j \<Longrightarrow> P i = P' i"
  shows "map f (filter P [0..<j]) = map f' (filter P' [0..<j])"
proof -
  have "filter P [0..<j] = filter P' [0..<j]"
    by (rule filter_cong) (use assms(2) in auto)
  moreover have "map f (filter P' [0..<j]) = map f' (filter P' [0..<j])"
    by (rule map_cong) (use assms(1) in auto)
  ultimately show ?thesis by simp
qed

lemma bounds_step_volume:
  assumes "volume_inv n j s" "j < n" "bounds_step L sg bs j s = Inr s'"
  shows "volume_inv n (Suc j) s'"
proof -
  have lens: "length (m_lbs s) = n" "length (m_dxs s) = n" "length (m_limit_types s) = n"
    and vol: "m_volume s =
       prod_list (map (\<lambda>i. m_dxs s ! i) (filter (\<lambda>i. m_limit_types s ! i = FINITE) [0..<j]))"
    using assms(1) by (simp_all add: volume_inv_def)
  have keep: "map (\<lambda>i. D[j := d] ! i) (filter P [0..<j]) = map (\<lambda>i. D ! i) (filter P [0..<j])"
    for D :: "xreal list" and d P
    by (rule filter_map_cong_below) simp_all
  have keep2: "filter (\<lambda>i. T[j := t] ! i = FINITE) [0..<j] = filter (\<lambda>i. T ! i = FINITE) [0..<j]"
    for T t
    by (rule filter_cong) simp_all
  show ?thesis
    using assms(2,3) lens
    by (auto simp: bounds_step_def raise_domain_error_def Let_def volume_inv_def vol keep keep2
        split: if_splits)
qed

lemma bounds_loop_volume:
  assumes "volume_inv n 0 s" "j \<le> n" "bounds_loop L sg bs [0..<j] s = Inr s'"
  shows "volume_inv n j s'"
  using assms(2,3)
proof (induction j arbitrary: s')
  case 0
  with assms(1) show ?case by simp
next
  case (Suc j)
  from Suc.prems(2) obtain t where t: "bounds_loop L sg bs [0..<j] s = Inr t"
    and st: "bounds_step L sg bs j t = Inr s'"
    by (auto simp: bounds_loop_append split: sum.splits)
  from Suc.IH[OF _ t] Suc.prems(1) have "volume_inv n j t" by simp
  then show ?case using st Suc.prems(1) by (intro bounds_step_volume) auto
qed

lemma set_bounds_volume:
  assumes "set_bounds L sg bs nthreads seed = Inr s"
  shows "volume_inv (length bs) (length bs) s"
proof -
  have "volume_inv (length bs) 0 (blank nthreads seed (length bs))"
    by (simp add: volume_inv_def blank_def)
  moreover have "bounds_loop L sg bs [0..<length bs] (blank nthreads seed (length bs)) = Inr s"
    using assms by (simp add: set_bounds_def)
  ultimately show ?thesis
    by (rule bounds_loop_volume [OF _ order_refl])
qed

lemma prime_step_axes:
  "prime_step L R F i p = Inr p' \<Longrightarrow> same_axes (fst p) (fst p')"
  by (auto simp: prime_step_def Let_def same_axes_def split: sum.splits)

lemma prime_loop_axes:
  "prime_loop L R F is p = Inr p' \<Longrightarrow> same_axes (fst p) (fst p')"
proof (induction "is" arbitrary: p)
  case Nil
  then show ?case by (simp add: same_axes_def)
next
  case (Cons i "is")
  from Cons.prems obtain q where q: "prime_step L R F i p = Inr q"
    and rest: "prime_loop L R F is q = Inr p'"
    by (auto split: sum.splits)
  from prime_step_axes[OF q] Cons.IH[OF rest] show ?case
    by (simp add: same_axes_def)
qed

lemma construct_axes:
  assumes "construct L R rd F bs goal sg nthreads seed = Inr s"
  shows "\<exists>s0. set_bounds L sg bs nthreads seed = Inr s0 \<and> m_lbs s = m_lbs s0 \<and>
           m_dxs s = m_dxs s0 \<and> m_limit_types s = m_limit_types s0 \<and> m_volume s = m_volume s0"
proof -
  from assms obtain s0 where s0: "set_bounds L sg bs nthreads seed = Inr s0"
    by (auto simp: construct_def split: sum.splits)
  let ?s1 = "s0\<lparr>m_num_threads := max (m_num_threads s0) 1\<rparr>"
  from assms s0 obtain p where
    p: "prime_loop L R F [0..<m_num_threads ?s1]
          (?s1, replicate (length (m_lbs ?s1)) 0, gen_seed R (if seed = 0 then rd else seed), 0) = Inr p"
    and s: "s = (fst p)\<lparr>m_avg := snd (snd (snd p)) / Fin (real (m_num_threads ?s1)),
                 m_error_goal := goal, m_done := False,
                 m_total_calls := of_nat (m_num_threads ?s1), m_variance := max_value L\<rparr>"
    by (auto simp: construct_def Let_def split: sum.splits)
  from prime_loop_axes[OF p] have "same_axes ?s1 (fst p)" by simp
  then show ?thesis using s0 s by (auto simp: same_axes_def)
qed


section \<open>Evaluation of the concrete parameters\<close>

lemma eps64_value: "eps64 = 1 / 4503599627370496"
  by (simp add: eps64_def power_int_minus)

lemma eps64_pos: "0 < eps64"
  by (simp add: eps64_def)

lemma denorm_min64_pos: "0 < denorm_min64"
  by (simp add: denorm_min64_def)

lemma min64_pos: "0 < min64"
  by (simp add: min64_def)

lemma denorm_min64_less_eps64: "denorm_min64 < eps64"
  unfolding denorm_min64_def eps64_def
  by (rule power_int_strict_increasing) simp_all

lemma max64_gt: "4 < max64"
proof -
  have "(4::real) = 1 * 2 powi 2" by simp
  also have "\<dots> < (2 - 2 powi (- 52)) * 2 powi 2"
    by (simp add: power_int_minus)
  also have "\<dots> \<le> (2 - 2 powi (- 52)) * 2 powi 1023"
    by (rule mult_left_mono) (simp_all add: power_int_increasing power_int_minus)
  finally show ?thesis by (simp only: max64_def)
qed

lemmas eval_defs = set_bounds_def blank_def bounds_step_def Fin_consts Let_def
  binary64_def minstd_rand_def prime_step_def fill_x_def fill_step_def m_integrand_def
  transform_axis_def emplace_def inv_denom_def raise_domain_error_def

lemma construct_unit_object:
  "construct binary64 minstd_rand rd constant_one [(0, 1)] (Fin (1 / 1000)) False 1 1 =
     Inr unit_object"
  by (simp add: construct_def eval_defs constant_one_def unit_object_def)

section \<open>The wrapped integrand\<close>

text \<open>
  C1. For an object the constructor has built and a sample vector with one coordinate
  per axis, the wrapped integrand hands the user integrand the vector of the mapped
  coordinates and returns the volume times the product of the Jacobian factors times
  the user's value, with the mapped coordinate and the factor of each axis as the
  specification tabulates them (\<open>spec_point\<close>, \<open>spec_jacobian\<close>); the volume is the
  product of the stored widths over the axes classified as finite.
\<close>

theorem wrapped_integrand_value:
  assumes "construct L R rd G bs goal sg nthreads seed = Inr s"
    and "length u = length bs"
  shows "m_volume s =
           prod_list (map (\<lambda>i. m_dxs s ! i)
             (filter (\<lambda>i. m_limit_types s ! i = FINITE) [0..<length bs]))
         \<and> m_integrand L s F u =
           (case F (map (\<lambda>i. spec_point L s i (u ! i)) [0..<length bs]) of
              Inl e \<Rightarrow> Inl e
            | Inr y \<Rightarrow>
                Inr (map (\<lambda>i. spec_point L s i (u ! i)) [0..<length bs],
                     m_volume s
                       * prod_list (map (\<lambda>i. spec_jacobian L s i (u ! i)) [0..<length bs])
                       * y))"
proof -
  from construct_axes[OF assms(1)] obtain s0 where
    s0: "set_bounds L sg bs nthreads seed = Inr s0"
    and eq: "m_lbs s = m_lbs s0" "m_dxs s = m_dxs s0" "m_limit_types s = m_limit_types s0"
      "m_volume s = m_volume s0"
    by blast
  from set_bounds_volume[OF s0] have "m_volume s0 =
      prod_list (map (\<lambda>i. m_dxs s0 ! i)
        (filter (\<lambda>i. m_limit_types s0 ! i = FINITE) [0..<length bs]))"
    by (simp add: volume_inv_def)
  then have vol: "m_volume s =
      prod_list (map (\<lambda>i. m_dxs s ! i)
        (filter (\<lambda>i. m_limit_types s ! i = FINITE) [0..<length bs]))"
    by (simp add: eq)
  show ?thesis
    unfolding assms(2)[symmetric]
    using vol[unfolded assms(2)[symmetric]] by (simp only: m_integrand_spec[of L s F u])
qed

theorem wrapped_integrand_value_witness:
  "construct binary64 minstd_rand 7 constant_one [(0, 1)] (Fin (1 / 1000)) False 1 1
     = Inr unit_object
   \<and> length [Fin (1 / 4)] = length [(0 :: xreal, 1 :: xreal)]
   \<and> m_volume unit_object = Fin 1
   \<and> m_integrand binary64 unit_object reciprocal [Fin (1 / 4)] = Inr ([Fin (1 / 4)], Fin 4)"
proof -
  have c: "construct binary64 minstd_rand 7 constant_one [(0, 1)] (Fin (1 / 1000)) False 1 1
      = Inr unit_object"
    by (rule construct_unit_object)
  have l: "length [Fin (1 / 4)] = length [(0 :: xreal, 1 :: xreal)]" by simp
  from wrapped_integrand_value[OF c l, of reciprocal] show ?thesis
    using c by (simp add: unit_object_def spec_point_def spec_jacobian_def reciprocal_def Fin_consts)
qed

section \<open>The accumulator\<close>

text \<open>
  C2. The update of the accumulator in the worker is the recurrence of the
  specification: whenever a pass of the inner loop consumes a sample, the value is the
  one the wrapped integrand returned, it is finite, and the new accumulator is the old
  one after the recurrence with that value: the count grows by one, the mean moves by
  the \<open>k\<close>-th part of the deviation less the compensator, the compensator becomes the
  change of the mean less that step, and \<open>S\<close> grows by the product of the deviations
  from the old and the new mean.
\<close>

theorem accumulator_recurrence:
  assumes "sample_step L R s F (a, x, g) = Inr (a', x', g')"
  shows "\<exists>f. m_integrand L s F (fst (fill_x R x g)) = Inr (x', f) \<and> isfinite f
           \<and> a' = accumulate f a \<and> accumulate f a = spec_recurrence f a
           \<and> w_k a' = w_k a + 1
           \<and> w_M1 a' = w_M1 a + ((f - w_M1 a) / Real_of_size (w_k a + 1) - w_compensator a)
           \<and> w_compensator a' =
               (w_M1 a' - w_M1 a) - ((f - w_M1 a) / Real_of_size (w_k a + 1) - w_compensator a)
           \<and> w_S a' = w_S a + (f - w_M1 a) * (f - w_M1 a')"
proof -
  from assms obtain f where f: "m_integrand L s F (fst (fill_x R x g)) = Inr (x', f)"
    and fin: "isfinite f" and a': "a' = accumulate f a"
    by (auto simp: sample_step_def Let_def raise_domain_error_def split: sum.splits if_splits)
  have "accumulate f a = spec_recurrence f a"
    by (rule accumulate_is_recurrence)
  moreover have "w_k (accumulate f a) = w_k a + 1"
    "w_M1 (accumulate f a) =
       w_M1 a + ((f - w_M1 a) / Real_of_size (w_k a + 1) - w_compensator a)"
    "w_compensator (accumulate f a) = (w_M1 (accumulate f a) - w_M1 a)
       - ((f - w_M1 a) / Real_of_size (w_k a + 1) - w_compensator a)"
    "w_S (accumulate f a) = w_S a + (f - w_M1 a) * (f - w_M1 (accumulate f a))"
    by (simp_all add: accumulate_def Let_def)
  ultimately show ?thesis using f fin a' by auto
qed

theorem accumulator_recurrence_witness:
  "sample_step binary64 minstd_rand unit_object constant_one
       (\<lparr>w_M1 = Fin 3, w_S = Fin 0, w_compensator = Fin 0, w_k = 1\<rparr>, [0], 1)
     = Inr (\<lparr>w_M1 = Fin 2, w_S = Fin 2, w_compensator = Fin 0, w_k = 2\<rparr>,
            [Fin (48270 / 2147483645)], 48271)
   \<and> (\<exists>f. m_integrand binary64 unit_object constant_one
             (fst (fill_x minstd_rand [0] 1)) = Inr ([Fin (48270 / 2147483645)], f)
          \<and> \<lparr>w_M1 = Fin 2, w_S = Fin 2, w_compensator = Fin 0, w_k = 2\<rparr>
             = spec_recurrence f \<lparr>w_M1 = Fin 3, w_S = Fin 0, w_compensator = Fin 0, w_k = 1\<rparr>)"
proof -
  have e: "sample_step binary64 minstd_rand unit_object constant_one
       (\<lparr>w_M1 = Fin 3, w_S = Fin 0, w_compensator = Fin 0, w_k = 1\<rparr>, [0], 1)
     = Inr (\<lparr>w_M1 = Fin 2, w_S = Fin 2, w_compensator = Fin 0, w_k = 2\<rparr>,
            [Fin (48270 / 2147483645)], 48271)"
    by (simp add: sample_step_def eval_defs unit_object_def constant_one_def accumulate_def
        Real_of_size_def)
  from accumulator_recurrence[OF e] show ?thesis using e by auto
qed

section \<open>Aggregation\<close>


section \<open>Cancellation and the seed\<close>

text \<open>
  C6. \<^verbatim>\<open>cancel()\<close> sets the flag and stores the square of the seed modulo \<open>2^64\<close>. With
  the stored seed 1 the square is 1 again: the seed that the next \<^verbatim>\<open>integrate()\<close>
  selects is the one the cancelled run used, and the engines of the workers it starts
  are the same. With the stored seed \<open>2^32\<close> the square is 0, the value that asks for
  a nondeterministic seed.
\<close>

theorem cancel_seed_one_unchanged:
  "m_done (cancel (s\<lparr>m_seed := 1\<rparr>))
   \<and> m_seed (cancel (s\<lparr>m_seed := 1\<rparr>)) = 1
   \<and> select_seed rd (cancel (s\<lparr>m_seed := 1\<rparr>)) = select_seed rd' (s\<lparr>m_seed := 1\<rparr>)
   \<and> map w_gen (threads (integrate R rd (cancel (s\<lparr>m_seed := 1\<rparr>))))
       = map w_gen (threads (integrate R rd' (s\<lparr>m_seed := 1\<rparr>)))
   \<and> m_seed (cancel (s\<lparr>m_seed := 2 ^ 32\<rparr>)) = 0"
proof -
  have gens: "map w_gen (fst (fold (spawn_step R t) js (ws, g)))
      = map w_gen (fst (fold (spawn_step R t') js (ws', g)))"
    if "map w_gen ws = map w_gen ws'" for t t' js ws ws' and g :: 'a
    using that
  proof (induction js arbitrary: ws ws' g)
    case Nil
    then show ?case by simp
  next
    case (Cons j js)
    let ?sd = "of_nat (fst (gen_next R g)) :: size_t"
    have l: "fold (spawn_step R t) (j # js) (ws, g)
        = fold (spawn_step R t) js (ws @ [new_worker R t j ?sd], snd (gen_next R g))"
      by (simp add: spawn_step_def)
    have r: "fold (spawn_step R t') (j # js) (ws', g)
        = fold (spawn_step R t') js (ws' @ [new_worker R t' j ?sd], snd (gen_next R g))"
      by (simp add: spawn_step_def)
    have "map w_gen (ws @ [new_worker R t j ?sd]) = map w_gen (ws' @ [new_worker R t' j ?sd])"
      using Cons.prems by (simp add: new_worker_def)
    from Cons.IH[OF this] show ?case by (simp only: l r)
  qed
  show ?thesis
    by (simp add: cancel_def select_seed_def integrate_def Let_def gens)
qed

lemma max64_pos: "0 < max64" "max64 \<noteq> 0" "0 \<noteq> max64" "max64 \<noteq> - 1" "\<not> max64 < - 1"
  using max64_gt by simp_all

lemma set_bounds_three_axes:
  "set_bounds binary64 False [(0, PInf), (MInf, 0), (MInf, PInf)] 1 1 = Inr three_axes_object"
  by (simp add: eval_defs three_axes_object_def upt_rec)

section \<open>Rounding to binary64\<close>

lemma nearest_even_bounds: "\<lfloor>x\<rfloor> \<le> nearest_even x" "nearest_even x \<le> \<lfloor>x\<rfloor> + 1"
  by (simp_all add: nearest_even_def)

lemma nearest_even_of_int [simp]: "nearest_even (of_int z) = z"
  by (simp add: nearest_even_def)

lemma floor_log2_bounds:
  assumes "0 < r"
  shows "2 powi \<lfloor>log 2 r\<rfloor> \<le> r" "r < 2 powi (\<lfloor>log 2 r\<rfloor> + 1)"
proof -
  have "2 powr real_of_int \<lfloor>log 2 r\<rfloor> \<le> r \<and> r < 2 powr real_of_int (\<lfloor>log 2 r\<rfloor> + 1)"
    using floor_log_eq_powr_iff[OF assms, of 2 "\<lfloor>log 2 r\<rfloor>"] by simp
  moreover have "2 powr real_of_int k = 2 powi k" for k
    by (rule powr_real_of_int') simp_all
  ultimately show "2 powi \<lfloor>log 2 r\<rfloor> \<le> r" "r < 2 powi (\<lfloor>log 2 r\<rfloor> + 1)"
    by (simp_all only:)
qed

lemma floor_log2_ge:
  assumes "2 powi k \<le> r"
  shows "k \<le> \<lfloor>log 2 r\<rfloor>"
proof -
  have pos: "0 < r" using assms by (rule less_le_trans[rotated]) simp
  have "2 powr real_of_int k \<le> r" using assms by (simp add: powr_real_of_int')
  then have "real_of_int k \<le> log 2 r" using pos by (simp add: le_log_iff)
  then show ?thesis by (simp add: le_floor_iff)
qed

lemma floor_log2_less:
  assumes "0 < r" "r < 2 powi k"
  shows "\<lfloor>log 2 r\<rfloor> < k"
proof (rule ccontr)
  assume "\<not> \<lfloor>log 2 r\<rfloor> < k"
  then have "(2::real) powi k \<le> 2 powi \<lfloor>log 2 r\<rfloor>"
    by (intro power_int_increasing) simp_all
  with floor_log2_bounds(1)[OF assms(1)] assms(2) show False by simp
qed

text \<open>
  Rounding does not go below a power of two that the exact value has reached: a number
  between \<open>2 powi k\<close>, with \<open>k\<close> a normal exponent, and 2 rounds to a number in that range.
\<close>

lemma round64_lower:
  assumes k: "- 1022 \<le> k" and lo: "2 powi k \<le> r" and hi: "r \<le> 2"
  shows "\<exists>q. round64 r = Fin q \<and> 2 powi k \<le> q \<and> q \<le> 4"
proof -
  have pos: "0 < r" using lo by (rule less_le_trans[rotated]) simp
  define E where "E = \<lfloor>log 2 r\<rfloor>"
  have kE: "k \<le> E" unfolding E_def by (rule floor_log2_ge[OF lo])
  have "r < 2 powi 2" using hi by simp
  from floor_log2_less[OF pos this] have E1: "E \<le> 1" by (simp add: E_def)
  have ex: "exponent64 r = E"
    using kE k pos by (simp add: exponent64_def E_def)
  define p where "p = (2::real) powi (E - 52)"
  have p: "0 < p" by (simp add: p_def)
  have "(2::real) powi 52 * 2 powi (E - 52) = 2 powi (52 + (E - 52))"
    "(2::real) powi 53 * 2 powi (E - 52) = 2 powi (53 + (E - 52))"
    by (rule power_int_add[symmetric], simp)+
  then have pE: "2 powi 52 * p = 2 powi E" "2 powi 53 * p = 2 powi (E + 1)"
    unfolding p_def by (simp_all add: algebra_simps)
  define x where "x = r / p"
  from floor_log2_bounds[OF pos] have b: "2 powi E \<le> r" "r < 2 powi (E + 1)"
    by (simp_all add: E_def)
  have xl: "2 ^ 52 \<le> x" using b(1) p pE(1) by (simp add: x_def pos_le_divide_eq)
  have xu: "x < 2 ^ 53" using b(2) p pE(2) by (simp add: x_def pos_divide_less_eq)
  define n where "n = nearest_even x"
  have "(2::int) ^ 52 \<le> \<lfloor>x\<rfloor>" using xl by (simp add: le_floor_iff)
  with nearest_even_bounds(1)[of x] have nl: "2 ^ 52 \<le> n"
    unfolding n_def by (rule order_trans[rotated])
  have "\<lfloor>x\<rfloor> < 2 ^ 53" using xu by (simp add: floor_less_iff)
  with nearest_even_bounds(2)[of x] have nu: "n \<le> 2 ^ 53"
    unfolding n_def by linarith
  define q where "q = of_int n * p"
  have low: "2 powi 52 * p \<le> q" unfolding q_def using nl p
    by (intro mult_right_mono) (simp_all add: of_int_le_numeral_power_cancel_iff)
  have "(2::real) powi k \<le> 2 powi E"
    by (rule power_int_increasing) (use kE in simp_all)
  also have "\<dots> = 2 powi 52 * p" by (rule pE(1)[symmetric])
  also note low
  finally have ql: "2 powi k \<le> q" .
  have "q \<le> 2 powi 53 * p" unfolding q_def using nu p
    by (intro mult_right_mono) (simp_all add: of_int_le_numeral_power_cancel_iff)
  also have "\<dots> = 2 powi (E + 1)" by (rule pE(2))
  also have "\<dots> \<le> 2 powi 2" using E1 by (intro power_int_increasing) simp_all
  finally have qu: "q \<le> 4" by simp
  have qpos: "0 < q" using ql by (rule less_le_trans[rotated]) simp
  have "round64 r = Fin q"
    using qu qpos max64_gt
    by (simp add: round64_def ex Let_def q_def n_def x_def p_def)
  with ql qu show ?thesis by blast
qed

lemma round64_one_plus_eps: "round64 (1 + eps64) = Fin (1 + eps64)"
proof -
  have e: "eps64 = 1 / 2 ^ 52" by (simp add: eps64_def power_int_minus)
  have "\<lfloor>log 2 (1 + eps64)\<rfloor> = 0"
    by (subst floor_log_eq_powr_iff) (simp_all add: e)
  then have ex: "exponent64 (1 + eps64) = 0"
    by (simp add: exponent64_def e)
  have x: "(1 + eps64) / 2 powi (- 52) = of_int (2 ^ 52 + 1)"
    by (simp add: e power_int_minus field_simps)
  have "1 + eps64 \<le> 4" by (simp add: e)
  with max64_gt show ?thesis
    unfolding round64_def ex Let_def
    by (simp only: diff_0 x nearest_even_of_int) (simp add: e power_int_minus)
qed

lemma sqrt_min64: "sqrt min64 = 2 powi (- 511)"
proof -
  define a where "a = (2::real) powi (- 511)"
  have a: "0 \<le> a" unfolding a_def by (rule zero_le_power_int) simp
  have "a * a = 2 powi (- 511 + - 511)"
    unfolding a_def by (rule power_int_add[symmetric]) simp
  also have "- 511 + - 511 = (- 1022 :: int)" by simp
  finally have "a\<^sup>2 = min64" by (simp only: power2_eq_square min64_def)
  from real_sqrt_unique[OF this a] show ?thesis by (simp only: a_def)
qed

text \<open>
  The product of the Jacobian factors is another matter. The factor of an
  upper-infinite axis at the sample 1 is above \<open>2 powi 104\<close> and that of a lower-infinite
  axis at the sample 0 is \<open>2 powi 1022\<close>: the product of the two powers is a number of the
  exact arithmetic and rounds to infinity.
\<close>

lemma jacobian_product_overflows:
  "Fin (2 powi 104) * Fin (2 powi 1022) = Fin (2 powi 1126)"
  "round64 (2 powi 1126) = PInf"
proof -
  define b where "b = (2::real) powi 1126"
  define p where "p = (2::real) powi 1074"
  have "(2::real) powi 104 * 2 powi 1022 = 2 powi (104 + 1022)"
    by (rule power_int_add[symmetric]) simp
  also have "104 + 1022 = (1126 :: int)" by simp
  finally have m: "(2::real) powi 104 * 2 powi 1022 = b" by (simp only: b_def)
  have bpos: "0 < b" unfolding b_def by (rule zero_less_power_int) simp
  have ppos: "0 < p" unfolding p_def by (rule zero_less_power_int) simp
  have ge: "1126 \<le> \<lfloor>log 2 b\<rfloor>" by (rule floor_log2_ge) (simp only: b_def order_refl)
  have "b < 2 powi 1127" unfolding b_def by (rule power_int_strict_increasing) simp_all
  from floor_log2_less[OF bpos this] ge have fl: "\<lfloor>log 2 b\<rfloor> = 1126" by linarith
  have ab: "\<bar>b\<bar> = b" using bpos by simp
  have ex: "exponent64 b = 1126" unfolding exponent64_def ab fl by simp
  have "(2::real) powi 52 * 2 powi 1074 = 2 powi (52 + 1074)"
    by (rule power_int_add[symmetric]) simp
  also have "52 + 1074 = (1126 :: int)" by simp
  finally have bp: "2 powi 52 * p = b" by (simp only: b_def p_def)
  have i52: "(2::real) powi 52 = of_int (2 ^ 52)" by simp
  have "b / p = of_int (2 ^ 52)"
    using ppos unfolding bp[symmetric] i52 by simp
  then have n: "nearest_even (b / p) = 2 ^ 52" by (simp only: nearest_even_of_int)
  have q: "of_int (nearest_even (b / p)) * p = b"
    by (simp only: n) (simp only: bp[symmetric] i52)
  define h where "h = (2::real) powi 1023"
  have hpos: "0 < h" unfolding h_def by (rule zero_less_power_int) simp
  have "(2::real) powi 1 * 2 powi 1023 = 2 powi (1 + 1023)"
    by (rule power_int_add[symmetric]) simp
  then have "2 * h = 2 powi 1024" by (simp add: h_def)
  moreover have "(2::real) powi 1024 \<le> b"
    unfolding b_def by (rule power_int_increasing) simp_all
  moreover have "(2 - 2 powi (- 52)) * h < 2 * h"
    using hpos by (intro mult_strict_right_mono) (simp_all add: power_int_minus)
  ultimately have big: "max64 < b" by (simp add: max64_def h_def)
  have e1074: "(1126::int) - 52 = 1074" by simp
  show "Fin (2 powi 104) * Fin (2 powi 1022) = Fin (2 powi 1126)"
    by (simp only: times_xreal.simps m b_def)
  have "round64 b = PInf"
    unfolding round64_def ex e1074 Let_def p_def[symmetric] q using big by simp
  then show "round64 (2 powi 1126) = PInf" by (simp only: b_def)
qed

text \<open>
  So it is in the accumulator: the deviation of a sample at the most negative number
  from a mean at the largest one is a number of the exact arithmetic and rounds to minus
  infinity, and a sum of squared deviations that has taken it in is no longer a
  number that is not negative.
\<close>

lemma deviation_overflows:
  "Fin (- max64) - Fin max64 = Fin (- (2 * max64))"
  "round64 (- (2 * max64)) = MInf"
proof -
  define h where "h = (2::real) powi 1023"
  define p where "p = (2::real) powi 972"
  define r where "r = - (2 * max64)"
  have hpos: "0 < h" unfolding h_def by (rule zero_less_power_int) simp
  have ppos: "0 < p" unfolding p_def by (rule zero_less_power_int) simp
  have mh: "max64 = (2 - 2 powi (- 52)) * h" by (simp only: max64_def h_def)
  have "(2::real) powi 51 * 2 powi 972 = 2 powi (51 + 972)"
    by (rule power_int_add[symmetric]) simp
  also have "51 + 972 = (1023 :: int)" by simp
  finally have hp: "h = 2 powi 51 * p" by (simp only: h_def p_def)
  have mp: "2 * max64 = of_int (2 ^ 53 - 1) * p"
    unfolding mh hp by (simp add: power_int_minus field_simps)
  have mpos: "h \<le> max64" "max64 < 2 * h"
    using hpos unfolding mh by (simp_all add: power_int_minus field_simps)
  have "(2::real) powi 1 * 2 powi 1023 = 2 powi (1 + 1023)"
    "(2::real) powi 2 * 2 powi 1023 = 2 powi (2 + 1023)"
    by (rule power_int_add[symmetric], simp)+
  then have e: "2 powi 1024 = 2 * h" "2 powi 1025 = 4 * h" by (simp_all add: h_def)
  have ab: "\<bar>r\<bar> = 2 * max64" using mpos hpos by (simp add: r_def)
  have "2 * h \<le> 2 * max64" "2 * max64 < 4 * h" "0 < 2 * max64"
    using mpos hpos by simp_all
  then have bounds: "2 powi 1024 \<le> \<bar>r\<bar>" "\<bar>r\<bar> < 2 powi 1025" "0 < \<bar>r\<bar>"
    by (simp_all only: ab e)
  have ge: "1024 \<le> \<lfloor>log 2 \<bar>r\<bar>\<rfloor>"
    by (rule floor_log2_ge) (rule bounds(1))
  have "\<lfloor>log 2 \<bar>r\<bar>\<rfloor> < 1025"
    by (rule floor_log2_less) (rule bounds(3), rule bounds(2))
  with ge have fl: "\<lfloor>log 2 \<bar>r\<bar>\<rfloor> = 1024" by linarith
  have ex: "exponent64 r = 1024" unfolding exponent64_def fl by simp
  have e972: "(1024::int) - 52 = 972" by simp
  have rp: "r = of_int (- (2 ^ 53 - 1)) * p"
    unfolding r_def mp by simp
  have "r / p = of_int (- (2 ^ 53 - 1))"
    using ppos by (simp only: rp) simp
  then have n: "nearest_even (r / p) = - (2 ^ 53 - 1)" by (simp only: nearest_even_of_int)
  have q: "of_int (nearest_even (r / p)) * p = r"
    by (simp only: n) (simp only: rp)
  have small: "r < - max64" using mpos hpos by (simp add: r_def)
  have mx: "\<not> max64 < r" using mpos hpos by (simp add: r_def)
  show "Fin (- max64) - Fin max64 = Fin (- (2 * max64))" by simp
  have "round64 r = MInf"
    unfolding round64_def ex e972 Let_def p_def[symmetric] q using small mx by simp
  then show "round64 (- (2 * max64)) = MInf" by (simp only: r_def)
qed

section \<open>The transform on the unit cube\<close>

text \<open>
  C9. On binary64, for a sample coordinate \<open>u\<close> in the closed unit interval, the end
  points 0 and 1 included: the sum \<open>1 + epsilon\<close> and the square root of the smallest
  normal number are binary64 numbers, so there is nothing to round in them; the three
  divisors of the transform, \<open>1 + epsilon - u\<close>, \<open>u + sqrt min_positive\<close> and
  \<open>u + epsilon\<close>, are finite and at least \<open>epsilon\<close>, \<open>2 powi -511\<close> and \<open>epsilon\<close>; rounding
  them to binary64 leaves finite numbers with the same lower bounds; and a quotient by
  such a number is a finite number, not the infinity or NaN of a division by zero. So
  the loop body of the wrapped integrand maps the coordinate by the formulas of its
  class with finite quotients \<open>z\<close>, \<open>t1\<close>, \<open>t2\<close>.
\<close>

theorem transform_total_on_unit_cube:
  assumes "0 \<le> u" "u \<le> 1" "x ! i = Fin u"
  shows "0 < eps64 \<and> 0 < (2::real) powi (- 511)
       \<and> 1 + epsilon binary64 = Fin (1 + eps64) \<and> round64 (1 + eps64) = Fin (1 + eps64)
       \<and> xsqrt (min_positive binary64) = Fin (2 powi (- 511))
       \<and> 1 + epsilon binary64 - Fin u = Fin (1 + eps64 - u) \<and> eps64 \<le> 1 + eps64 - u
       \<and> Fin u + xsqrt (min_positive binary64) = Fin (u + 2 powi (- 511))
       \<and> 2 powi (- 511) \<le> u + 2 powi (- 511)
       \<and> Fin u + epsilon binary64 = Fin (u + eps64) \<and> eps64 \<le> u + eps64
       \<and> (\<exists>q1 q2 q3.
             round64 (1 + eps64 - u) = Fin q1 \<and> eps64 \<le> q1 \<and> 1 / Fin q1 = Fin (1 / q1)
             \<and> round64 (u + 2 powi (- 511)) = Fin q2 \<and> 2 powi (- 511) \<le> q2
             \<and> 1 / Fin q2 = Fin (1 / q2)
             \<and> round64 (u + eps64) = Fin q3 \<and> eps64 \<le> q3 \<and> 1 / Fin q3 = Fin (1 / q3))
       \<and> transform_axis binary64 s i (x, c) =
           (case m_limit_types s ! i of
              FINITE \<Rightarrow> (x[i := m_lbs s ! i + Fin u * m_dxs s ! i], c)
            | UPPER_BOUND_INFINITE \<Rightarrow>
                (x[i := m_lbs s ! i + Fin u * Fin (1 / (1 + eps64 - u))],
                 c * ((Fin (1 / (1 + eps64 - u)) * Fin (1 / (1 + eps64 - u)))
                        * (1 + epsilon binary64)))
            | LOWER_BOUND_INFINITE \<Rightarrow>
                (x[i := m_lbs s ! i + (Fin u - 1) * Fin (1 / (u + 2 powi (- 511)))],
                 c * (Fin (1 / (u + 2 powi (- 511))) * Fin (1 / (u + 2 powi (- 511)))))
            | DOUBLE_INFINITE \<Rightarrow>
                (x[i := (2 * Fin u - 1) * Fin (1 / (1 + eps64 - u)) * Fin (1 / (u + eps64)) / 4],
                 c * ((Fin (1 / (1 + eps64 - u)) * Fin (1 / (1 + eps64 - u))
                       + Fin (1 / (u + eps64)) * Fin (1 / (u + eps64))) / 4)))"
proof -
  have e: "0 < eps64" by (rule eps64_pos)
  have e52: "eps64 = 2 powi (- 52)" by (rule eps64_def)
  have h: "0 < (2::real) powi (- 511)" by simp
  have small: "(2::real) powi (- 511) \<le> 1" "eps64 \<le> 1"
    by (simp_all add: eps64_def power_int_minus field_simps)
  have L: "epsilon binary64 = Fin eps64" "min_positive binary64 = Fin min64"
    by (simp_all add: binary64_def)
  have a: "1 + epsilon binary64 = Fin (1 + eps64)"
    by (simp add: L Fin_one)
  have r: "xsqrt (min_positive binary64) = Fin (2 powi (- 511))"
    using min64_pos by (simp add: L sqrt_min64 not_less less_imp_le)
  have d1: "1 + epsilon binary64 - Fin u = Fin (1 + eps64 - u)" by (simp add: a)
  have d2: "Fin u + xsqrt (min_positive binary64) = Fin (u + 2 powi (- 511))" by (simp add: r)
  have d3: "Fin u + epsilon binary64 = Fin (u + eps64)" by (simp add: L)
  have b1: "eps64 \<le> 1 + eps64 - u" using assms(2) by simp
  have b2: "2 powi (- 511) \<le> u + 2 powi (- 511)" using assms(1) by simp
  have b3: "eps64 \<le> u + eps64" using assms(1) by simp
  have inv: "1 / Fin q = Fin (1 / q)" if "0 < q" for q
    using that by (simp add: Fin_one)
  from round64_lower[of "- 52" "1 + eps64 - u"] b1 assms(1) small obtain q1 where
    q1: "round64 (1 + eps64 - u) = Fin q1" "eps64 \<le> q1"
    by (auto simp: e52)
  from round64_lower[of "- 511" "u + 2 powi (- 511)"] b2 assms(2) small obtain q2 where
    q2: "round64 (u + 2 powi (- 511)) = Fin q2" "2 powi (- 511) \<le> q2"
    by auto
  from round64_lower[of "- 52" "u + eps64"] b3 assms(2) small obtain q3 where
    q3: "round64 (u + eps64) = Fin q3" "eps64 \<le> q3"
    by (auto simp: e52)
  from q1(2) q2(2) q3(2) e h have "0 < q1" "0 < q2" "0 < q3" by linarith+
  then have i1: "1 / Fin q1 = Fin (1 / q1)" and i2: "1 / Fin q2 = Fin (1 / q2)"
    and i3: "1 / Fin q3 = Fin (1 / q3)"
    by (simp_all add: inv)
  have rounded: "\<exists>q1 q2 q3.
      round64 (1 + eps64 - u) = Fin q1 \<and> eps64 \<le> q1 \<and> 1 / Fin q1 = Fin (1 / q1)
      \<and> round64 (u + 2 powi (- 511)) = Fin q2 \<and> 2 powi (- 511) \<le> q2
      \<and> 1 / Fin q2 = Fin (1 / q2)
      \<and> round64 (u + eps64) = Fin q3 \<and> eps64 \<le> q3 \<and> 1 / Fin q3 = Fin (1 / q3)"
    using q1 q2 q3 i1 i2 i3 by blast
  from b1 b2 b3 e h have p: "0 < 1 + eps64 - u" "0 < u + 2 powi (- 511)" "0 < u + eps64"
    by linarith+
  have z1: "1 / (1 + epsilon binary64 - x ! i) = Fin (1 / (1 + eps64 - u))"
    unfolding assms(3) d1 by (rule inv[OF p(1)])
  have z2: "1 / (x ! i + xsqrt (min_positive binary64)) = Fin (1 / (u + 2 powi (- 511)))"
    unfolding assms(3) d2 by (rule inv[OF p(2)])
  have z3: "1 / (x ! i + epsilon binary64) = Fin (1 / (u + eps64))"
    unfolding assms(3) d3 by (rule inv[OF p(3)])
  have t: "transform_axis binary64 s i (x, c) =
           (case m_limit_types s ! i of
              FINITE \<Rightarrow> (x[i := m_lbs s ! i + Fin u * m_dxs s ! i], c)
            | UPPER_BOUND_INFINITE \<Rightarrow>
                (x[i := m_lbs s ! i + Fin u * Fin (1 / (1 + eps64 - u))],
                 c * ((Fin (1 / (1 + eps64 - u)) * Fin (1 / (1 + eps64 - u)))
                        * (1 + epsilon binary64)))
            | LOWER_BOUND_INFINITE \<Rightarrow>
                (x[i := m_lbs s ! i + (Fin u - 1) * Fin (1 / (u + 2 powi (- 511)))],
                 c * (Fin (1 / (u + 2 powi (- 511))) * Fin (1 / (u + 2 powi (- 511)))))
            | DOUBLE_INFINITE \<Rightarrow>
                (x[i := (2 * Fin u - 1) * Fin (1 / (1 + eps64 - u)) * Fin (1 / (u + eps64)) / 4],
                 c * ((Fin (1 / (1 + eps64 - u)) * Fin (1 / (1 + eps64 - u))
                       + Fin (1 / (u + eps64)) * Fin (1 / (u + eps64))) / 4)))"
    unfolding transform_axis_def Let_def fst_conv snd_conv z1 z2 z3
    by (cases "m_limit_types s ! i") (simp_all only: assms(3) limit_classification.case
        limit_classification.distinct if_True if_False refl)
  show ?thesis
    by (intro conjI e h a round64_one_plus_eps r d1 b1 d2 b2 d3 b3 rounded t)
qed

theorem transform_total_on_unit_cube_witness:
  "(0::real) \<le> 1 \<and> (1::real) \<le> 1 \<and> [Fin 1, Fin 0, Fin 1] ! 0 = Fin 1
   \<and> (0::real) \<le> 0 \<and> (0::real) \<le> 1 \<and> [Fin 1, Fin 0, Fin 1] ! 1 = Fin 0
   \<and> set_bounds binary64 False [(0, PInf), (MInf, 0), (MInf, PInf)] 1 1 = Inr three_axes_object
   \<and> 1 + epsilon binary64 - Fin 1 = Fin eps64
   \<and> (\<exists>q. round64 (1 + eps64 - 1) = Fin q \<and> eps64 \<le> q)
   \<and> Fin 0 + xsqrt (min_positive binary64) = Fin (2 powi (- 511))
   \<and> (\<exists>q. round64 (0 + 2 powi (- 511)) = Fin q \<and> 2 powi (- 511) \<le> q)
   \<and> transform_axis binary64 three_axes_object 0 ([Fin 1, Fin 0, Fin 1], Fin 1) =
       ([Fin (1 / eps64), Fin 0, Fin 1], Fin ((1 + eps64) / (eps64 * eps64)))
   \<and> transform_axis binary64 three_axes_object 1 ([Fin 1, Fin 0, Fin 1], Fin 1) =
       ([Fin 1, Fin (- (2 powi 511)), Fin 1], Fin (2 powi 1022))"
proof -
  have u1: "(0::real) \<le> 1" "(1::real) \<le> 1" "[Fin 1, Fin 0, Fin 1] ! 0 = Fin 1"
    and u0: "(0::real) \<le> 0" "[Fin 1, Fin 0, Fin 1] ! 1 = Fin 0"
    by simp_all
  note one = transform_total_on_unit_cube[OF u1, of three_axes_object "Fin 1"]
  note zero = transform_total_on_unit_cube[OF u0(1) u1(1) u0(2), of three_axes_object "Fin 1"]
  have sb: "set_bounds binary64 False [(0, PInf), (MInf, 0), (MInf, PInf)] 1 1
      = Inr three_axes_object"
    by (rule set_bounds_three_axes)
  from one have d: "1 + epsilon binary64 - Fin 1 = Fin eps64" by simp
  from one have q: "\<exists>q. round64 (1 + eps64 - 1) = Fin q \<and> eps64 \<le> q" by blast
  from zero have d': "Fin 0 + xsqrt (min_positive binary64) = Fin (2 powi (- 511))" by simp
  from zero have q': "\<exists>q. round64 (0 + 2 powi (- 511)) = Fin q \<and> 2 powi (- 511) \<le> q"
    by blast
  have p: "(2::real) powi (- 511) * 2 powi (- 511) = 2 powi (- 511 + - 511)"
    by (rule power_int_add[symmetric]) simp
  from one have t1: "transform_axis binary64 three_axes_object 0 ([Fin 1, Fin 0, Fin 1], Fin 1) =
       ([Fin (1 / eps64), Fin 0, Fin 1], Fin ((1 + eps64) / (eps64 * eps64)))"
    by (simp add: three_axes_object_def blank_def binary64_def Fin_consts)
  from zero have t0: "transform_axis binary64 three_axes_object 1 ([Fin 1, Fin 0, Fin 1], Fin 1) =
       ([Fin 1, Fin (- (2 powi 511)), Fin 1], Fin (2 powi 1022))"
    using p
    by (simp add: three_axes_object_def blank_def binary64_def Fin_consts power_int_minus
        field_simps)
  show ?thesis
    by (intro conjI u1 u0 sb d q d' q' t1 t0)
qed

section \<open>Perturbed end points\<close>

text \<open>
  What one pass of the bounds loop stores for its axis, class by class: the test for a
  zero lower bound belongs to the finite class alone.
\<close>

lemma bounds_step_stores:
  assumes "bounds_step L sg bs i s = Inr s'" and "i < length (m_lbs s)"
    and "length (m_dxs s) = length (m_lbs s)" "length (m_limit_types s) = length (m_lbs s)"
  shows "m_limit_types s' ! i = FINITE \<Longrightarrow>
           m_lbs s' ! i =
             (if sg then (if fst (bs ! i) = 0 then epsilon L
                          else nextafter L (fst (bs ! i)) (max_value L))
              else fst (bs ! i))
           \<and> m_dxs s' ! i =
             (if sg then nextafter L (snd (bs ! i)) (lowest L) - m_lbs s' ! i
              else snd (bs ! i) - fst (bs ! i))"
    and "m_limit_types s' ! i = UPPER_BOUND_INFINITE \<Longrightarrow>
           m_lbs s' ! i =
             (if sg then nextafter L (fst (bs ! i)) (max_value L) else fst (bs ! i))"
    and "m_limit_types s' ! i = LOWER_BOUND_INFINITE \<Longrightarrow> m_lbs s' ! i = snd (bs ! i)"
  using assms
  by (auto simp: bounds_step_def Let_def raise_domain_error_def split: if_splits)

text \<open>
  C7. On binary64 with the singular flag set, the bounds loop stores for the
  upper-infinite axis from 0 the successor of 0, the smallest subnormal number, which
  is not the machine epsilon; for the finite axis from 0 to 1 it stores the machine
  epsilon, and the width from it to the predecessor of 1.
\<close>

theorem singular_upper_infinite_at_zero:
  "set_bounds binary64 True [(0, PInf)] nthreads seed =
     Inr ((blank nthreads seed 1)\<lparr>m_limit_types := [UPPER_BOUND_INFINITE],
            m_lbs := [Fin denorm_min64], m_dxs := [NaN]\<rparr>)
   \<and> Fin denorm_min64 \<noteq> epsilon binary64
   \<and> set_bounds binary64 True [(0, 1)] nthreads seed =
     Inr ((blank nthreads seed 1)\<lparr>m_limit_types := [FINITE],
            m_lbs := [epsilon binary64], m_dxs := [Fin (1 - 2 powi (- 53) - eps64)],
            m_volume := Fin (1 - 2 powi (- 53) - eps64)\<rparr>)"
proof -
  have ne: "denorm_min64 \<noteq> eps64"
    using denorm_min64_less_eps64 by simp
  have e: "exponent64 (- 1) = 0"
    by (simp add: exponent64_def)
  have up: "next_up64 0 = denorm_min64" "next_up64 (- 1) = - 1 + 2 powi (- 53)"
    by (simp_all add: next_up64_def e)
  show ?thesis
    by (simp add: eval_defs max64_pos up ne)
qed

section \<open>Runs\<close>

subsection \<open>What the operations leave unchanged\<close>

lemma aggregate_frame [simp]:
  "m_num_threads (aggregate s) = m_num_threads s"
  "m_thread_calls (aggregate s) = m_thread_calls s"
  "m_thread_Ss (aggregate s) = m_thread_Ss s"
  "m_thread_averages (aggregate s) = m_thread_averages s"
  "m_exception (aggregate s) = m_exception s"
  "m_done (aggregate s) = m_done s"
  "m_error_goal (aggregate s) = m_error_goal s"
  "m_seed (aggregate s) = m_seed s"
  by (simp_all add: aggregate_def Let_def)

lemma slot_reads_cong:
  assumes "m_thread_calls t = m_thread_calls s" "m_thread_Ss t = m_thread_Ss s"
    "m_thread_averages t = m_thread_averages s"
  shows "calls_at t = calls_at s" "Ss_at t = Ss_at s" "averages_at t = averages_at s"
    "slot_acc t = slot_acc s"
  using assms by (simp_all add: fun_eq_iff calls_at_def Ss_at_def averages_at_def slot_acc_def)

lemma aggregate_slots [simp]:
  "calls_at (aggregate s) = calls_at s" "Ss_at (aggregate s) = Ss_at s"
  "averages_at (aggregate s) = averages_at s" "slot_acc (aggregate s) = slot_acc s"
  by (rule slot_reads_cong; simp)+

lemma aggregate_sums:
  "m_total_calls (aggregate s) = (\<Sum>j<m_num_threads s. calls_at s j)"
  "m_avg (aggregate s) =
     (\<Sum>i<m_num_threads s. averages_at s i *
        (Real_of_size (calls_at s i) / Real_of_size (\<Sum>j<m_num_threads s. calls_at s j)))"
  "m_variance (aggregate s) =
     (\<Sum>i<m_num_threads s. Ss_at s i) / Real_of_size ((\<Sum>j<m_num_threads s. calls_at s j) - 1)"
  by (simp_all add: aggregate_def Let_def fold_aggregate_step sum_calls_eq)

lemma aggregate_cong:
  assumes "m_num_threads t = m_num_threads s" "calls_at t = calls_at s" "Ss_at t = Ss_at s"
    "averages_at t = averages_at s"
  shows "m_avg (aggregate t) = m_avg (aggregate s)"
    "m_variance (aggregate t) = m_variance (aggregate s)"
    "m_total_calls (aggregate t) = m_total_calls (aggregate s)"
  by (simp_all add: aggregate_sums assms)

lemma total_unat_cong:
  "m_num_threads t = m_num_threads s \<Longrightarrow> calls_at t = calls_at s \<Longrightarrow> total_unat t = total_unat s"
  by (simp add: total_unat_def)

subsection \<open>Counts\<close>

lemma unat_sum_words:
  fixes w :: "nat \<Rightarrow> size_t" and n :: nat
  assumes "(\<Sum>i<n. unat (w i)) < 2 ^ 64"
  shows "unat (\<Sum>i<n. w i) = (\<Sum>i<n. unat (w i))"
  using assms
proof (induction n)
  case 0
  show ?case by simp
next
  case (Suc n)
  then have "unat (\<Sum>i<n. w i) = (\<Sum>i<n. unat (w i))" by simp
  moreover from Suc.prems have "(\<Sum>i<n. unat (w i)) + unat (w n) < 2 ^ 64" by simp
  ultimately show ?case
    by (simp add: unat_add_lem [THEN iffD1])
qed

lemma unat_succ:
  fixes c :: size_t
  assumes "unat c + 1 < 2 ^ 64"
  shows "unat (c + 1) = unat c + 1" "c + 1 \<noteq> 0"
proof -
  from assms have "unat c + unat (1 :: size_t) < 2 ^ LENGTH(64)" by simp
  then have "unat (c + 1) = unat c + unat (1 :: size_t)"
    by (rule unat_add_lem [THEN iffD1])
  then show u: "unat (c + 1) = unat c + 1" by simp
  show "c + 1 \<noteq> 0"
  proof
    assume "c + 1 = 0"
    then have "unat (c + 1) = 0" by simp
    with u show False by simp
  qed
qed

lemma unat_add_batch:
  fixes c :: size_t
  assumes "unat c + 2048 < 2 ^ 64"
  shows "unat (c + of_nat magic_calls_before_update) = unat c + 2048"
proof -
  have m: "(of_nat magic_calls_before_update :: size_t) = 2048"
    by (simp add: magic_calls_before_update_def)
  from assms have "unat c + unat (2048 :: size_t) < 2 ^ LENGTH(64)" by simp
  then have "unat (c + 2048) = unat c + unat (2048 :: size_t)"
    by (rule unat_add_lem [THEN iffD1])
  then show ?thesis by (simp add: m)
qed

subsection \<open>Batches\<close>

lemma accumulate_count: "w_k (accumulate f a) = w_k a + 1"
  by (simp add: accumulate_def Let_def)

lemma sample_step_count:
  assumes "sample_step L R s F (a, x, g) = Inr (a', x', g')"
  shows "w_k a' = w_k a + 1"
proof -
  from assms obtain f where "a' = accumulate f a"
    by (auto simp: sample_step_def Let_def raise_domain_error_def split: sum.splits if_splits)
  then show ?thesis by (simp add: accumulate_count)
qed

lemma batch_loop_count:
  assumes "batch_loop L R s F j (a, x, g) = Inr (a', x', g')"
  shows "w_k a' = w_k a + of_nat j"
  using assms
proof (induction j arbitrary: a x g)
  case 0
  then show ?case by simp
next
  case (Suc j)
  from Suc.prems obtain a1 x1 g1 where
    one: "sample_step L R s F (a, x, g) = Inr (a1, x1, g1)"
    and rest: "batch_loop L R s F j (a1, x1, g1) = Inr (a', x', g')"
    by (auto split: sum.splits)
  from Suc.IH[OF rest] sample_step_count[OF one] show ?case by simp
qed

lemma batch_loop_first_raises:
  "sample_step L R s F w = Inl e \<Longrightarrow> batch_loop L R s F magic_calls_before_update w = Inl e"
proof -
  assume h: "sample_step L R s F w = Inl e"
  have m: "magic_calls_before_update = Suc 2047" by (simp add: magic_calls_before_update_def)
  show ?thesis unfolding m using h by (simp only: batch_loop.simps sum.case)
qed

subsection \<open>Publication\<close>

lemma publish_frame [simp]:
  "m_num_threads (publish i a s) = m_num_threads s"
  "m_exception (publish i a s) = m_exception s"
  "m_done (publish i a s) = m_done s"
  "m_error_goal (publish i a s) = m_error_goal s"
  "m_total_calls (publish i a s) = m_total_calls s"
  "m_variance (publish i a s) = m_variance s"
  "m_avg (publish i a s) = m_avg s"
  "m_seed (publish i a s) = m_seed s"
  by (simp_all add: publish_def)

lemma publish_slots:
  "calls_at (publish i a s) = (calls_at s)(i := w_k a)"
  "Ss_at (publish i a s) = (Ss_at s)(i := w_S a)"
  "averages_at (publish i a s) = (averages_at s)(i := w_M1 a)"
  by (simp_all add: publish_def calls_at_def Ss_at_def averages_at_def fun_eq_iff)

lemma sum_fun_upd_nat:
  fixes f :: "nat \<Rightarrow> nat"
  assumes "i < n"
  shows "(\<Sum>j<n. (f(i := v)) j) + f i = (\<Sum>j<n. f j) + v"
proof -
  have fin: "finite {..<n}" and mem: "i \<in> {..<n}" using assms by simp_all
  have "(\<Sum>j<n. (f(i := v)) j) = v + (\<Sum>j\<in>{..<n} - {i}. (f(i := v)) j)"
    using sum.remove[OF fin mem, of "f(i := v)"] by simp
  moreover have "(\<Sum>j\<in>{..<n} - {i}. (f(i := v)) j) = (\<Sum>j\<in>{..<n} - {i}. f j)"
    by (rule sum.cong) simp_all
  moreover have "(\<Sum>j<n. f j) = f i + (\<Sum>j\<in>{..<n} - {i}. f j)"
    using sum.remove[OF fin mem, of f] by simp
  ultimately show ?thesis by simp
qed

lemma publish_total_unat:
  assumes "i < m_num_threads s" "unat (w_k a) = unat (calls_at s i) + d"
  shows "total_unat (publish i a s) = total_unat s + d"
proof -
  have "total_unat (publish i a s) = (\<Sum>j<m_num_threads s. ((\<lambda>j. unat (calls_at s j))(i := unat (w_k a))) j)"
    unfolding total_unat_def by (rule sum.cong) (simp_all add: publish_slots)
  with sum_fun_upd_nat[OF assms(1), of "\<lambda>j. unat (calls_at s j)" "unat (w_k a)"] assms(2)
  show ?thesis by (simp add: total_unat_def)
qed

lemma slot_le_total:
  "i < m_num_threads s \<Longrightarrow> unat (calls_at s i) \<le> total_unat s"
  unfolding total_unat_def
  by (rule member_le_sum) simp_all

subsection \<open>Steps\<close>

lemma same_slots_facts:
  assumes "same_slots s t"
  shows "m_num_threads t = m_num_threads s" "slot_acc t = slot_acc s"
    "total_unat t = total_unat s" "calls_at t = calls_at s" "Ss_at t = Ss_at s"
    "averages_at t = averages_at s"
proof -
  from assms have n: "m_num_threads t = m_num_threads s"
    and m: "m_thread_calls t = m_thread_calls s" "m_thread_Ss t = m_thread_Ss s"
      "m_thread_averages t = m_thread_averages s"
    by (simp_all add: same_slots_def)
  note r = slot_reads_cong[OF m]
  show "m_num_threads t = m_num_threads s" by (rule n)
  show "slot_acc t = slot_acc s" "calls_at t = calls_at s" "Ss_at t = Ss_at s"
    "averages_at t = averages_at s"
    by (rule r)+
  show "total_unat t = total_unat s" by (rule total_unat_cong[OF n r(1)])
qed

lemma same_slots_simple [simp]:
  "same_slots s (aggregate s)" "same_slots s (store_exception e s)" "same_slots s (cancel s)"
  "same_slots s (update_target_error v s)" "same_slots s (s\<lparr>m_done := d\<rparr>)"
  by (simp_all add: same_slots_def store_exception_def cancel_def update_target_error_def)

lemma same_slots_trans: "same_slots s t \<Longrightarrow> same_slots t u \<Longrightarrow> same_slots s u"
  by (simp add: same_slots_def)

lemma spawn_fold:
  "length (fst (fold (spawn_step R t) [0..<n] ([], g))) = n \<and>
   (\<forall>i<n. w_acc (fst (fold (spawn_step R t) [0..<n] ([], g)) ! i) = slot_acc t i \<and>
          w_status (fst (fold (spawn_step R t) [0..<n] ([], g)) ! i) = AtLoopHead)"
proof (induction n)
  case 0
  show ?case by simp
next
  case (Suc n)
  let ?p = "fold (spawn_step R t) [0..<n] ([], g)"
  have st: "fst (fold (spawn_step R t) [0..<Suc n] ([], g)) =
      fst ?p @ [new_worker R t n (of_nat (fst (gen_next R (snd ?p))))]"
    by (simp add: spawn_step_def)
  show ?case
    using Suc.IH unfolding st
    by (auto simp: nth_append less_Suc_eq new_worker_def slot_acc_def)
qed

lemma integrate_parts:
  "shared (integrate R rd s) = s\<lparr>m_done := False\<rparr>"
  "ctrl (integrate R rd s) = Polling"
  "length (threads (integrate R rd s)) = m_num_threads s"
  "i < m_num_threads s \<Longrightarrow> w_acc (threads (integrate R rd s) ! i) = slot_acc s i"
  "i < m_num_threads s \<Longrightarrow> w_status (threads (integrate R rd s) ! i) = AtLoopHead"
proof -
  have sl: "slot_acc (s\<lparr>m_done := False\<rparr>) = slot_acc s"
    by (rule same_slots_facts(2)) simp
  show "shared (integrate R rd s) = s\<lparr>m_done := False\<rparr>" "ctrl (integrate R rd s) = Polling"
    by (simp_all add: integrate_def Let_def)
  show "length (threads (integrate R rd s)) = m_num_threads s"
    using spawn_fold[of R "s\<lparr>m_done := False\<rparr>" "m_num_threads s"]
    by (simp add: integrate_def Let_def)
  show "i < m_num_threads s \<Longrightarrow> w_acc (threads (integrate R rd s) ! i) = slot_acc s i"
    using spawn_fold[of R "s\<lparr>m_done := False\<rparr>" "m_num_threads s"] sl
    by (simp add: integrate_def Let_def)
  show "i < m_num_threads s \<Longrightarrow> w_status (threads (integrate R rd s) ! i) = AtLoopHead"
    using spawn_fold[of R "s\<lparr>m_done := False\<rparr>" "m_num_threads s"]
    by (simp add: integrate_def Let_def)
qed

lemma step_WorkerBatch_disabled:
  "\<not> (i < length (threads rs) \<and> w_status (threads rs ! i) = InBatch) \<Longrightarrow>
   step L R F (WorkerBatch i) rs = rs"
  by (auto simp: step_def)

lemma step_WorkerBatch_raise:
  assumes "i < length (threads rs)" "w_status (threads rs ! i) = InBatch"
    and "batch_loop L R (shared rs) F magic_calls_before_update
           (w_acc (threads rs ! i), w_x (threads rs ! i), w_gen (threads rs ! i)) = Inl e"
  shows "step L R F (WorkerBatch i) rs =
     rs\<lparr>shared := store_exception e (shared rs),
        threads := (threads rs)[i := (threads rs ! i)\<lparr>w_status := Exited\<rparr>]\<rparr>"
  using assms by (simp add: step_def Let_def)

lemma step_WorkerBatch_publish:
  assumes "i < length (threads rs)" "w_status (threads rs ! i) = InBatch"
    and "batch_loop L R (shared rs) F magic_calls_before_update
           (w_acc (threads rs ! i), w_x (threads rs ! i), w_gen (threads rs ! i))
         = Inr (a', x', g')"
  shows "step L R F (WorkerBatch i) rs =
     rs\<lparr>shared := publish i a' (shared rs),
        threads := (threads rs)[i := \<lparr>w_acc = a', w_x = x', w_gen = g',
                                       w_status = AtLoopHead\<rparr>]\<rparr>"
  using assms by (simp add: step_def Let_def)

subsection \<open>The call counts along a run\<close>

lemma count_inv_mono: "count_inv T b rs \<Longrightarrow> b \<le> b' \<Longrightarrow> count_inv T b' rs"
  by (simp add: count_inv_def)

lemma count_inv_shared:
  assumes "count_inv T b rs" "same_slots (shared rs) t"
    "m_total_calls t = m_total_calls (shared rs)"
  shows "count_inv T b (rs\<lparr>shared := t\<rparr>)"
  using assms(1,3) same_slots_facts[OF assms(2)] by (simp add: count_inv_def)

lemma count_inv_status:
  assumes "count_inv T b rs"
  shows "count_inv T b (rs\<lparr>threads := (threads rs)[i := (threads rs ! i)\<lparr>w_status := st\<rparr>]\<rparr>)"
  using assms
  by (cases "i < length (threads rs)") (auto simp: count_inv_def nth_list_update)

lemma aggregate_total:
  assumes "count_inv T b rs" "b < 2 ^ 64"
  shows "unat (m_total_calls (aggregate (shared rs))) = total_unat (shared rs)"
    "T \<le> total_unat (shared rs)"
proof -
  let ?s = "shared rs"
  from assms(1) have T: "m_num_threads ?s = T"
    and each: "\<And>i. i < T \<Longrightarrow> 1 \<le> unat (calls_at ?s i)"
    and tot: "total_unat ?s \<le> b"
    by (simp_all add: count_inv_def)
  from tot assms(2) have "(\<Sum>i<T. unat (calls_at ?s i)) < 2 ^ 64"
    by (simp add: total_unat_def T)
  from unat_sum_words[OF this]
  show "unat (m_total_calls (aggregate ?s)) = total_unat ?s"
    by (simp add: aggregate_sums total_unat_def T)
  have "(\<Sum>i<T. 1) \<le> (\<Sum>i<T. unat (calls_at ?s i))"
    by (rule sum_mono) (use each in simp)
  then show "T \<le> total_unat ?s" by (simp add: total_unat_def T)
qed

lemma count_inv_aggregate:
  assumes inv: "count_inv T b rs" and b: "b < 2 ^ 64"
    and ss: "same_slots (aggregate (shared rs)) t"
    and tc: "m_total_calls t = m_total_calls (aggregate (shared rs))"
  shows "count_inv T b (rs\<lparr>shared := t, ctrl := c\<rparr>)"
    "unat (m_total_calls (shared rs)) \<le> unat (m_total_calls t)"
proof -
  have "same_slots (shared rs) t"
    by (rule same_slots_trans[OF _ ss]) simp
  note f = same_slots_facts[OF this]
  note a = aggregate_total[OF inv b]
  show "count_inv T b (rs\<lparr>shared := t, ctrl := c\<rparr>)"
    using inv f a by (simp add: count_inv_def tc)
  show "unat (m_total_calls (shared rs)) \<le> unat (m_total_calls t)"
    using inv a by (simp add: count_inv_def tc)
qed

lemma count_inv_batch:
  assumes inv: "count_inv T b rs" and b: "b + 2048 < 2 ^ 64"
    and i: "i < length (threads rs)"
    and batch: "batch_loop L R (shared rs) F magic_calls_before_update
                  (w_acc (threads rs ! i), w_x (threads rs ! i), w_gen (threads rs ! i))
                = Inr (a', x', g')"
  shows "count_inv T (b + 2048)
           (rs\<lparr>shared := publish i a' (shared rs),
               threads := (threads rs)[i := \<lparr>w_acc = a', w_x = x', w_gen = g', w_status = st\<rparr>]\<rparr>)"
proof -
  let ?s = "shared rs"
  from inv have T: "m_num_threads ?s = T" and len: "length (threads rs) = T"
    and each: "\<And>j. j < T \<Longrightarrow> 1 \<le> unat (calls_at ?s j)"
    and loc: "\<And>j. j < T \<Longrightarrow> w_k (w_acc (threads rs ! j)) = calls_at ?s j"
    and tot: "total_unat ?s \<le> b"
    and pub: "T \<le> unat (m_total_calls ?s)" "unat (m_total_calls ?s) \<le> total_unat ?s"
    by (simp_all add: count_inv_def)
  from i len have iT: "i < T" by simp
  with T have iT': "i < m_num_threads ?s" by simp
  have "w_k a' = calls_at ?s i + of_nat magic_calls_before_update"
    using batch_loop_count[OF batch] loc[OF iT] by simp
  moreover from slot_le_total[OF iT'] tot b have "unat (calls_at ?s i) + 2048 < 2 ^ 64"
    by simp
  ultimately have k': "unat (w_k a') = unat (calls_at ?s i) + 2048"
    by (simp only: unat_add_batch)
  have tot': "total_unat (publish i a' ?s) = total_unat ?s + 2048"
    by (rule publish_total_unat[OF iT' k'])
  show ?thesis
    using T len each loc tot pub iT k'
    by (auto simp: count_inv_def publish_slots tot' nth_list_update)
qed

lemma integrate_count_inv:
  assumes "m_num_threads s = T" "\<And>i. i < T \<Longrightarrow> 1 \<le> unat (calls_at s i)"
    "total_unat s \<le> b" "T \<le> unat (m_total_calls s)" "unat (m_total_calls s) \<le> total_unat s"
  shows "count_inv T b (integrate R rd s)"
proof -
  have ss: "same_slots s (s\<lparr>m_done := False\<rparr>)" by simp
  note f = same_slots_facts[OF ss]
  show ?thesis
    using assms f by (simp add: count_inv_def integrate_parts slot_acc_def)
qed

lemma step_count_inv:
  assumes inv: "count_inv T b rs" and b: "b + 2048 < 2 ^ 64"
  shows "count_inv T (b + 2048) (step L R F ev rs)
       \<and> unat (m_total_calls (shared rs)) \<le> unat (m_total_calls (shared (step L R F ev rs)))"
proof (cases ev)
  case (WorkerCheck i)
  show ?thesis
    unfolding WorkerCheck step_def event.case
    using count_inv_mono[OF count_inv_status[OF inv]] count_inv_mono[OF inv] by simp
next
  case (WorkerBatch i)
  show ?thesis
  proof (cases "i < length (threads rs) \<and> w_status (threads rs ! i) = InBatch")
    case False
    from step_WorkerBatch_disabled[OF False] count_inv_mono[OF inv] show ?thesis
      unfolding WorkerBatch by simp
  next
    case True
    then have en: "i < length (threads rs)" "w_status (threads rs ! i) = InBatch"
      by simp_all
    show ?thesis
    proof (cases "batch_loop L R (shared rs) F magic_calls_before_update
                  (w_acc (threads rs ! i), w_x (threads rs ! i), w_gen (threads rs ! i))")
      case (Inl e)
      have "count_inv T b (rs\<lparr>shared := store_exception e (shared rs)\<rparr>)"
        by (rule count_inv_shared[OF inv]) (simp_all add: same_slots_def store_exception_def)
      from count_inv_mono[OF count_inv_status[OF this, of i Exited]]
      show ?thesis
        unfolding WorkerBatch step_WorkerBatch_raise[OF en Inl]
        by (simp add: store_exception_def)
    next
      case (Inr w')
      obtain a' x' g' where w': "w' = (a', x', g')" by (cases w') auto
      from count_inv_batch[OF inv b en(1) Inr[unfolded w'], of AtLoopHead]
      show ?thesis
        unfolding WorkerBatch step_WorkerBatch_publish[OF en Inr[unfolded w']] by simp
    qed
  qed
next
  case Poll
  from b have b': "b < 2 ^ 64" by simp
  let ?a = "aggregate (shared rs)"
  have 1: "count_inv T b (rs\<lparr>shared := ?a, ctrl := c\<rparr>)"
    "unat (m_total_calls (shared rs)) \<le> unat (m_total_calls ?a)" for c
    by (rule count_inv_aggregate[OF inv b']; simp add: same_slots_def)+
  have 2: "count_inv T b (rs\<lparr>shared := ?a\<lparr>m_done := True\<rparr>, ctrl := c\<rparr>)" for c
    by (rule count_inv_aggregate[OF inv b']) (simp_all add: same_slots_def)
  have 3: "count_inv T b (rs\<lparr>shared := ?a\<rparr>)"
    using 1(1)[of "ctrl rs"] by simp
  show ?thesis
    unfolding Poll step_def event.case
    using count_inv_mono[OF 1(1)] count_inv_mono[OF 2] count_inv_mono[OF 3]
      count_inv_mono[OF inv] 1(2)
    by (simp add: Let_def)
next
  case Join
  from b have b': "b < 2 ^ 64" by simp
  let ?a = "aggregate (shared rs)"
  have 1: "count_inv T b (rs\<lparr>shared := ?a, ctrl := c\<rparr>)"
    "unat (m_total_calls (shared rs)) \<le> unat (m_total_calls ?a)" for c
    by (rule count_inv_aggregate[OF inv b']; simp add: same_slots_def)+
  have 2: "count_inv T b (rs\<lparr>ctrl := c\<rparr>)" for c
    using inv by (simp add: count_inv_def)
  show ?thesis
    unfolding Join step_def event.case
    using count_inv_mono[OF 1(1)] count_inv_mono[OF 2] count_inv_mono[OF inv] 1(2)
    by (simp add: Let_def split: option.splits)
next
  case Cancel
  have "count_inv T b (rs\<lparr>shared := cancel (shared rs)\<rparr>)"
    by (rule count_inv_shared[OF inv]) (simp_all add: same_slots_def cancel_def)
  from count_inv_mono[OF this] show ?thesis
    unfolding Cancel step_def event.case by (simp add: cancel_def)
next
  case (UpdateTarget v)
  have "count_inv T b (rs\<lparr>shared := update_target_error v (shared rs)\<rparr>)"
    by (rule count_inv_shared[OF inv]) (simp_all add: same_slots_def update_target_error_def)
  from count_inv_mono[OF this] show ?thesis
    unfolding UpdateTarget step_def event.case by (simp add: update_target_error_def)
next
  case (Restart rd)
  from inv have "count_inv T b (integrate R rd (shared rs))"
    by (intro integrate_count_inv) (simp_all add: count_inv_def)
  from count_inv_mono[OF this] count_inv_mono[OF inv] show ?thesis
    unfolding Restart step_def event.case
    by (simp add: integrate_parts split: controller_status.splits)
qed

lemma run_append: "run L R F (xs @ ys) rs = run L R F ys (run L R F xs rs)"
  by (simp add: run_def)

lemma run_count_inv:
  assumes "count_inv T b rs" "b + 2048 * length evs < 2 ^ 64"
  shows "count_inv T (b + 2048 * length evs) (run L R F evs rs)
       \<and> unat (m_total_calls (shared rs)) \<le> unat (m_total_calls (shared (run L R F evs rs)))"
  using assms
proof (induction evs arbitrary: b rs)
  case Nil
  then show ?case by (simp add: run_def)
next
  case (Cons ev evs)
  from Cons.prems(2) have b: "b + 2048 < 2 ^ 64" by simp
  note 1 = step_count_inv[OF Cons.prems(1) b, of L R F ev]
  from Cons.prems(2) have 2: "(b + 2048) + 2048 * length evs < 2 ^ 64" by simp
  from Cons.IH[OF 1[THEN conjunct1] 2] 1[THEN conjunct2] show ?case
    by (simp add: run_def add.assoc)
qed

subsection \<open>The slots after the constructor\<close>

lemma bounds_step_maps:
  "bounds_step L sg bs i s = Inr s' \<Longrightarrow>
   m_thread_calls s' = m_thread_calls s \<and> m_thread_Ss s' = m_thread_Ss s \<and>
   m_thread_averages s' = m_thread_averages s \<and> m_num_threads s' = m_num_threads s \<and>
   m_exception s' = m_exception s"
  by (auto simp: bounds_step_def Let_def raise_domain_error_def split: if_splits)

lemma bounds_loop_maps:
  "bounds_loop L sg bs is s = Inr s' \<Longrightarrow>
   m_thread_calls s' = m_thread_calls s \<and> m_thread_Ss s' = m_thread_Ss s \<and>
   m_thread_averages s' = m_thread_averages s \<and> m_num_threads s' = m_num_threads s \<and>
   m_exception s' = m_exception s"
proof (induction "is" arbitrary: s)
  case Nil
  then show ?case by simp
next
  case (Cons i "is")
  from Cons.prems obtain t where t: "bounds_step L sg bs i s = Inr t"
    and rest: "bounds_loop L sg bs is t = Inr s'"
    by (auto split: sum.splits)
  from bounds_step_maps[OF t] Cons.IH[OF rest] show ?case by simp
qed

lemma prime_step_primed:
  assumes "prime_step L R F n p = Inr p'" "primed n (fst p)"
  shows "primed (Suc n) (fst p')"
  using assms
  by (auto simp: prime_step_def Let_def primed_def emplace_def less_Suc_eq split: sum.splits)

lemma prime_loop_append:
  "prime_loop L R F (xs @ ys) p =
     (case prime_loop L R F xs p of Inl e \<Rightarrow> Inl e | Inr p' \<Rightarrow> prime_loop L R F ys p')"
  by (induction xs arbitrary: p) (simp_all split: sum.splits)

lemma prime_loop_primed:
  assumes "prime_loop L R F [0..<n] p = Inr p'" "primed 0 (fst p)"
  shows "primed n (fst p')"
  using assms(1)
proof (induction n arbitrary: p')
  case 0
  with assms(2) show ?case by simp
next
  case (Suc n)
  from Suc.prems obtain q where q: "prime_loop L R F [0..<n] p = Inr q"
    and st: "prime_step L R F n q = Inr p'"
    by (auto simp: prime_loop_append split: sum.splits)
  from prime_step_primed[OF st Suc.IH[OF q]] show ?case .
qed

lemma construct_slots:
  assumes "construct L R rd F bs goal sg nthreads seed = Inr s"
  shows "1 \<le> m_num_threads s" "primed (m_num_threads s) s"
    "m_total_calls s = of_nat (m_num_threads s)" "m_variance s = max_value L"
    "m_exception s = None" "\<not> m_done s" "m_error_goal s = goal"
proof -
  from assms obtain s0 where s0: "set_bounds L sg bs nthreads seed = Inr s0"
    by (auto simp: construct_def split: sum.splits)
  let ?s1 = "s0\<lparr>m_num_threads := max (m_num_threads s0) 1\<rparr>"
  from assms s0 obtain p where
    p: "prime_loop L R F [0..<m_num_threads ?s1]
          (?s1, replicate (length (m_lbs ?s1)) 0, gen_seed R (if seed = 0 then rd else seed), 0) = Inr p"
    and s: "s = (fst p)\<lparr>m_avg := snd (snd (snd p)) / Fin (real (m_num_threads ?s1)),
                 m_error_goal := goal, m_done := False,
                 m_total_calls := of_nat (m_num_threads ?s1), m_variance := max_value L\<rparr>"
    by (auto simp: construct_def Let_def split: sum.splits)
  from bounds_loop_maps[OF s0[unfolded set_bounds_def]]
  have e: "m_thread_calls s0 = Map.empty" "m_thread_Ss s0 = Map.empty"
    "m_thread_averages s0 = Map.empty" "m_exception s0 = None"
    by (simp_all add: blank_def)
  then have "primed 0 ?s1" by (simp add: primed_def)
  with prime_loop_primed[OF p] have pr: "primed (m_num_threads ?s1) (fst p)" by simp
  from prime_loop_axes[OF p] have ax: "m_num_threads (fst p) = m_num_threads ?s1"
    "m_exception (fst p) = None"
    using e(4) by (simp_all add: same_axes_def)
  show "1 \<le> m_num_threads s" "m_total_calls s = of_nat (m_num_threads s)"
    "m_variance s = max_value L" "m_exception s = None" "\<not> m_done s" "m_error_goal s = goal"
    using ax by (simp_all add: s)
  show "primed (m_num_threads s) s"
    using pr ax by (simp add: s primed_def)
qed

lemma primed_slots:
  assumes "primed n s" "i < n"
  shows "calls_at s i = 1" "Ss_at s i = 0"
  using assms by (simp_all add: primed_def calls_at_def Ss_at_def)

lemma constructed_counts:
  assumes "construct L R rd F bs goal sg nthreads seed = Inr s" "m_num_threads s < 2 ^ 64"
  shows "\<And>i. i < m_num_threads s \<Longrightarrow> calls_at s i = 1" "total_unat s = m_num_threads s"
    "unat (m_total_calls s) = m_num_threads s"
proof -
  note c = construct_slots[OF assms(1)]
  show "\<And>i. i < m_num_threads s \<Longrightarrow> calls_at s i = 1"
    by (rule primed_slots(1)[OF c(2)])
  then show "total_unat s = m_num_threads s"
    by (simp add: total_unat_def)
  show "unat (m_total_calls s) = m_num_threads s"
    using assms(2) by (simp add: c(3) unat_of_nat)
qed

subsection \<open>The range of the progress fraction\<close>

lemma progress_range: "progress s = NaN \<or> (0 \<le> progress s \<and> progress s \<le> 1)"
proof (cases "m_error_goal s / current_error_estimate s")
  case NaN
  then show ?thesis by (simp add: progress_def Let_def Fin_consts)
next
  case MInf
  then show ?thesis by (simp add: progress_def Let_def Fin_consts)
next
  case PInf
  then show ?thesis by (simp add: progress_def Let_def Fin_consts)
next
  case (Fin a)
  have "0 \<le> a * a" by simp
  with Fin show ?thesis by (simp add: progress_def Let_def Fin_consts not_le)
qed

lemmas run_defs = run_def step_def integrate_def spawn_step_def new_worker_def select_seed_def
  cancel_def update_target_error_def aggregate_def sum_calls_def aggregate_step_def
  calls_at_def Ss_at_def averages_at_def all_exited_def Let_def Real_of_size_def
  store_exception_def publish_def

lemma construct_two_thread_object:
  "construct binary64 minstd_rand rd constant_one [(0, 1)] (Fin (1 / 1000)) False 2 1 =
     Inr two_thread_object"
  by (simp add: construct_def eval_defs constant_one_def two_thread_object_def upt_rec
      fun_upd_twist)

lemma construct_singular_object:
  "construct binary64 minstd_rand rd reciprocal [(0, 1)] (Fin (1 / 1000)) False 1 225371434 =
     Inr singular_object"
  by (simp add: construct_def eval_defs reciprocal_def singular_object_def)

subsection \<open>A batch of the constant integrand\<close>

lemma constant_sample:
  assumes "length x = 1" "k + 1 \<noteq> 0"
  shows "\<exists>x' g'. sample_step binary64 minstd_rand unit_object constant_one
                   (\<lparr>w_M1 = Fin 1, w_S = Fin 0, w_compensator = Fin 0, w_k = k\<rparr>, x, g)
                 = Inr (\<lparr>w_M1 = Fin 1, w_S = Fin 0, w_compensator = Fin 0, w_k = k + 1\<rparr>, x', g')
               \<and> length x' = 1"
proof -
  from assms(2) have "unat (k + 1) \<noteq> 0" by (simp add: unat_eq_0)
  then have n: "real (unat (k + 1)) \<noteq> 0" by (metis of_nat_eq_0_iff)
  have u: "[0..<length x] = [0]" using assms(1) by simp
  show ?thesis
    using n assms(1)
    by (simp add: sample_step_def m_integrand_def fill_x_def fill_step_def transform_axis_def
        unit_object_def constant_one_def accumulate_def Let_def u Fin_consts
        Real_of_size_def)
qed

lemma constant_batch:
  assumes "length x = 1" "unat k + n < 2 ^ 64"
  shows "\<exists>x' g'. batch_loop binary64 minstd_rand unit_object constant_one n
                   (\<lparr>w_M1 = Fin 1, w_S = Fin 0, w_compensator = Fin 0, w_k = k\<rparr>, x, g)
                 = Inr (\<lparr>w_M1 = Fin 1, w_S = Fin 0, w_compensator = Fin 0, w_k = k + of_nat n\<rparr>,
                        x', g')"
  using assms
proof (induction n arbitrary: x k g)
  case 0
  then show ?case by simp
next
  case (Suc n)
  from Suc.prems(2) have "unat k + 1 < 2 ^ 64" by simp
  note k = unat_succ[OF this]
  from constant_sample[OF Suc.prems(1) k(2), of g] obtain x1 g1 where
    one: "sample_step binary64 minstd_rand unit_object constant_one
            (\<lparr>w_M1 = Fin 1, w_S = Fin 0, w_compensator = Fin 0, w_k = k\<rparr>, x, g)
          = Inr (\<lparr>w_M1 = Fin 1, w_S = Fin 0, w_compensator = Fin 0, w_k = k + 1\<rparr>, x1, g1)"
    and len: "length x1 = 1"
    by blast
  from Suc.prems(2) k(1) have "unat (k + 1) + n < 2 ^ 64" by simp
  from Suc.IH[OF len this, of g1] obtain x' g' where
    "batch_loop binary64 minstd_rand unit_object constant_one n
       (\<lparr>w_M1 = Fin 1, w_S = Fin 0, w_compensator = Fin 0, w_k = k + 1\<rparr>, x1, g1)
     = Inr (\<lparr>w_M1 = Fin 1, w_S = Fin 0, w_compensator = Fin 0, w_k = k + 1 + of_nat n\<rparr>,
            x', g')"
    by blast
  with one have "batch_loop binary64 minstd_rand unit_object constant_one (Suc n)
       (\<lparr>w_M1 = Fin 1, w_S = Fin 0, w_compensator = Fin 0, w_k = k\<rparr>, x, g)
     = Inr (\<lparr>w_M1 = Fin 1, w_S = Fin 0, w_compensator = Fin 0, w_k = k + of_nat (Suc n)\<rparr>,
            x', g')"
    by (simp add: add.assoc add.commute)
  then show ?case by blast
qed

lemma batched_unit_run:
  "\<exists>x' g'.
     run binary64 minstd_rand constant_one
       [WorkerCheck 0, WorkerBatch 0, Cancel, WorkerCheck 0, Poll, Join]
       (integrate minstd_rand 7 unit_object) =
     \<lparr>shared = unit_object\<lparr>m_done := True, m_total_calls := 2049, m_variance := Fin 0,
         m_thread_calls := [0 \<mapsto> 2049]\<rparr>,
      threads =
        [\<lparr>w_acc = \<lparr>w_M1 = Fin 1, w_S = Fin 0, w_compensator = Fin 0, w_k = 2049\<rparr>,
          w_x = x', w_gen = g', w_status = Exited\<rparr>],
      ctrl = Returned (Inr (Fin 1))\<rparr>
   \<and> run binary64 minstd_rand constant_one [WorkerCheck 0, WorkerBatch 0]
       (integrate minstd_rand 7 unit_object) =
     \<lparr>shared = unit_object\<lparr>m_thread_calls := [0 \<mapsto> 2049]\<rparr>,
      threads =
        [\<lparr>w_acc = \<lparr>w_M1 = Fin 1, w_S = Fin 0, w_compensator = Fin 0, w_k = 2049\<rparr>,
          w_x = x', w_gen = g', w_status = AtLoopHead\<rparr>],
      ctrl = Polling\<rparr>"
  "raised binary64 minstd_rand constant_one
     [WorkerCheck 0, WorkerBatch 0, Cancel, WorkerCheck 0, Poll, Join]
     (integrate minstd_rand 7 unit_object) = []"
proof -
  let ?a = "\<lparr>w_M1 = Fin 1, w_S = Fin 0, w_compensator = Fin 0, w_k = 1 :: size_t\<rparr>"
  let ?w = "\<lparr>w_acc = ?a, w_x = [0], w_gen = 48271 :: nat, w_status = AtLoopHead\<rparr>"
  have k: "(1 :: size_t) + of_nat magic_calls_before_update = 2049"
    by (simp add: magic_calls_before_update_def)
  have "\<exists>x' g'. batch_loop binary64 minstd_rand unit_object constant_one
        magic_calls_before_update (?a, [0], 48271)
      = Inr (\<lparr>w_M1 = Fin 1, w_S = Fin 0, w_compensator = Fin 0,
              w_k = 1 + of_nat magic_calls_before_update\<rparr>, x', g')"
    by (rule constant_batch) (simp_all add: magic_calls_before_update_def)
  then obtain x' g' where
    batch: "batch_loop binary64 minstd_rand unit_object constant_one magic_calls_before_update
        (?a, [0], 48271)
      = Inr (\<lparr>w_M1 = Fin 1, w_S = Fin 0, w_compensator = Fin 0, w_k = 2049\<rparr>, x', g')"
    unfolding k by blast
  let ?a' = "\<lparr>w_M1 = Fin 1, w_S = Fin 0, w_compensator = Fin 0, w_k = 2049 :: size_t\<rparr>"
  let ?w' = "\<lparr>w_acc = ?a', w_x = x', w_gen = g', w_status = AtLoopHead\<rparr>"
  let ?s1 = "unit_object\<lparr>m_thread_calls := [0 \<mapsto> 2049]\<rparr>"
  have i: "integrate minstd_rand 7 unit_object =
      \<lparr>shared = unit_object, threads = [?w], ctrl = Polling\<rparr>"
    by (simp add: integrate_def spawn_step_def new_worker_def select_seed_def minstd_rand_def
        unit_object_def calls_at_def Ss_at_def averages_at_def Let_def Fin_consts)
  have c: "step binary64 minstd_rand constant_one (WorkerCheck 0)
        \<lparr>shared = unit_object, threads = [?w], ctrl = Polling\<rparr> =
      \<lparr>shared = unit_object, threads = [?w\<lparr>w_status := InBatch\<rparr>], ctrl = Polling\<rparr>"
    by (simp add: step_def unit_object_def)
  have b: "step binary64 minstd_rand constant_one (WorkerBatch 0)
        \<lparr>shared = unit_object, threads = [?w\<lparr>w_status := InBatch\<rparr>], ctrl = Polling\<rparr> =
      \<lparr>shared = ?s1, threads = [?w'], ctrl = Polling\<rparr>"
  proof -
    let ?st = "\<lparr>shared = unit_object, threads = [?w\<lparr>w_status := InBatch\<rparr>], ctrl = Polling\<rparr>"
    have "step binary64 minstd_rand constant_one (WorkerBatch 0) ?st =
        ?st\<lparr>shared := publish 0 ?a' (shared ?st),
            threads := (threads ?st)[0 := \<lparr>w_acc = ?a', w_x = x', w_gen = g',
                                           w_status = AtLoopHead\<rparr>]\<rparr>"
      by (rule step_WorkerBatch_publish) (simp_all add: batch)
    then show ?thesis by (simp add: publish_def unit_object_def)
  qed
  have rest: "run binary64 minstd_rand constant_one [Cancel, WorkerCheck 0, Poll, Join]
        \<lparr>shared = ?s1, threads = [?w'], ctrl = Polling\<rparr> =
      \<lparr>shared = unit_object\<lparr>m_done := True, m_total_calls := 2049, m_variance := Fin 0,
         m_thread_calls := [0 \<mapsto> 2049]\<rparr>,
       threads = [?w'\<lparr>w_status := Exited\<rparr>], ctrl = Returned (Inr (Fin 1))\<rparr>"
    by (simp add: run_defs unit_object_def Fin_consts)
  have two: "run binary64 minstd_rand constant_one [WorkerCheck 0, WorkerBatch 0]
        (integrate minstd_rand 7 unit_object) =
      \<lparr>shared = ?s1, threads = [?w'], ctrl = Polling\<rparr>"
    by (simp only: run_def fold_Cons fold_Nil o_apply id_apply i c b)
  have "run binary64 minstd_rand constant_one
        ([WorkerCheck 0, WorkerBatch 0] @ [Cancel, WorkerCheck 0, Poll, Join])
        (integrate minstd_rand 7 unit_object) =
      \<lparr>shared = unit_object\<lparr>m_done := True, m_total_calls := 2049, m_variance := Fin 0,
         m_thread_calls := [0 \<mapsto> 2049]\<rparr>,
       threads = [?w'\<lparr>w_status := Exited\<rparr>], ctrl = Returned (Inr (Fin 1))\<rparr>"
    by (simp only: run_append two rest)
  with two show "\<exists>x' g'.
     run binary64 minstd_rand constant_one
       [WorkerCheck 0, WorkerBatch 0, Cancel, WorkerCheck 0, Poll, Join]
       (integrate minstd_rand 7 unit_object) =
     \<lparr>shared = unit_object\<lparr>m_done := True, m_total_calls := 2049, m_variance := Fin 0,
         m_thread_calls := [0 \<mapsto> 2049]\<rparr>,
      threads =
        [\<lparr>w_acc = \<lparr>w_M1 = Fin 1, w_S = Fin 0, w_compensator = Fin 0, w_k = 2049\<rparr>,
          w_x = x', w_gen = g', w_status = Exited\<rparr>],
      ctrl = Returned (Inr (Fin 1))\<rparr>
   \<and> run binary64 minstd_rand constant_one [WorkerCheck 0, WorkerBatch 0]
       (integrate minstd_rand 7 unit_object) =
     \<lparr>shared = unit_object\<lparr>m_thread_calls := [0 \<mapsto> 2049]\<rparr>,
      threads =
        [\<lparr>w_acc = \<lparr>w_M1 = Fin 1, w_S = Fin 0, w_compensator = Fin 0, w_k = 2049\<rparr>,
          w_x = x', w_gen = g', w_status = AtLoopHead\<rparr>],
      ctrl = Polling\<rparr>"
    by auto
  have "raised_by binary64 minstd_rand constant_one (WorkerBatch 0)
      \<lparr>shared = unit_object, threads = [?w\<lparr>w_status := InBatch\<rparr>], ctrl = Polling\<rparr> = None"
    by (simp add: raised_by_def batch)
  then show "raised binary64 minstd_rand constant_one
     [WorkerCheck 0, WorkerBatch 0, Cancel, WorkerCheck 0, Poll, Join]
     (integrate minstd_rand 7 unit_object) = []"
    by (simp only: raised.simps i c) (simp add: raised_by_def)
qed

section \<open>Invariants of the published aggregate\<close>

text \<open>
  C4, as the code has it. Take an object the constructor has built and any interleaving
  of worker steps, polls, cancellations, changes of the goal and restarts that is short
  enough for the 64-bit call counters not to wrap. The published total starts at the
  thread count, it never decreases from one moment of the run to a later one, so it is at
  least the thread count at every moment, after the controller has returned in
  particular; and \<^verbatim>\<open>progress()\<close> is NaN or lies between 0 and 1. Nothing is said of the
  sign of the variance.
\<close>

theorem aggregate_bounds_after_run:
  assumes "construct L R rd F bs goal sg nthreads seed = Inr s0"
    and "m_num_threads s0 + 2048 * length evs < 2 ^ 64"
  shows "unat (calls s0) = m_num_threads s0
       \<and> unat (calls (shared (run L R F (take n evs) (integrate R rd' s0))))
           \<le> unat (calls (shared (run L R F evs (integrate R rd' s0))))
       \<and> m_num_threads s0 \<le> unat (calls (shared (run L R F evs (integrate R rd' s0))))
       \<and> (progress (shared (run L R F evs (integrate R rd' s0))) = NaN
          \<or> 0 \<le> progress (shared (run L R F evs (integrate R rd' s0)))
            \<and> progress (shared (run L R F evs (integrate R rd' s0))) \<le> 1)"
proof -
  let ?T = "m_num_threads s0"
  let ?start = "integrate R rd' s0"
  let ?mid = "run L R F (take n evs) ?start"
  let ?rs = "run L R F evs ?start"
  from assms(2) have T: "?T < 2 ^ 64" by simp
  note c = constructed_counts[OF assms(1) T]
  have inv0: "count_inv ?T ?T ?start"
    by (rule integrate_count_inv) (simp_all add: c)
  have "length (take n evs) \<le> length evs" by simp
  with assms(2) have b1: "?T + 2048 * length (take n evs) < 2 ^ 64" by simp
  from run_count_inv[OF inv0 b1]
  have inv1: "count_inv ?T (?T + 2048 * length (take n evs)) ?mid" by (rule conjunct1)
  have "length (take n evs) + length (drop n evs) = length evs" by simp
  then have "(?T + 2048 * length (take n evs)) + 2048 * length (drop n evs)
      = ?T + 2048 * length evs"
    by (simp only: add.assoc distrib_left [symmetric])
  with assms(2) have b2: "(?T + 2048 * length (take n evs)) + 2048 * length (drop n evs) < 2 ^ 64"
    by simp
  have split: "?rs = run L R F (drop n evs) ?mid"
    using run_append[of L R F "take n evs" "drop n evs" ?start] by simp
  from run_count_inv[OF inv1 b2, of L R F]
  have mono: "unat (calls (shared ?mid)) \<le> unat (calls (shared ?rs))"
    unfolding split calls_def by (rule conjunct2)
  from run_count_inv[OF inv0 assms(2), of L R F]
  have ge: "?T \<le> unat (calls (shared ?rs))"
    by (simp add: count_inv_def calls_def)
  have start: "unat (calls s0) = ?T" by (simp add: calls_def c)
  from start mono ge progress_range[of "shared ?rs"] show ?thesis by blast
qed

theorem aggregate_bounds_after_run_witness:
  "construct binary64 minstd_rand 7 constant_one [(0, 1)] (Fin (1 / 1000)) False 1 1
     = Inr unit_object
   \<and> m_num_threads unit_object
       + 2048 * length [WorkerCheck 0, WorkerBatch 0, Cancel, WorkerCheck 0, Poll, Join]
       < (2 :: nat) ^ 64
   \<and> unat (calls unit_object) = 1
   \<and> ctrl (run binary64 minstd_rand constant_one
         [WorkerCheck 0, WorkerBatch 0, Cancel, WorkerCheck 0, Poll, Join]
         (integrate minstd_rand 7 unit_object)) = Returned (Inr (Fin 1))
   \<and> unat (calls (shared (run binary64 minstd_rand constant_one
         (take 2 [WorkerCheck 0, WorkerBatch 0, Cancel, WorkerCheck 0, Poll, Join])
         (integrate minstd_rand 7 unit_object)))) = 1
   \<and> unat (calls (shared (run binary64 minstd_rand constant_one
         [WorkerCheck 0, WorkerBatch 0, Cancel, WorkerCheck 0, Poll, Join]
         (integrate minstd_rand 7 unit_object)))) = 2049
   \<and> progress (shared (run binary64 minstd_rand constant_one
         [WorkerCheck 0, WorkerBatch 0, Cancel, WorkerCheck 0, Poll, Join]
         (integrate minstd_rand 7 unit_object))) = 1"
proof -
  let ?evs = "[WorkerCheck 0, WorkerBatch 0, Cancel, WorkerCheck 0, Poll, Join]"
  let ?start = "integrate minstd_rand 7 unit_object"
  let ?rs = "run binary64 minstd_rand constant_one ?evs ?start"
  let ?mid = "run binary64 minstd_rand constant_one (take 2 ?evs) ?start"
  have c: "construct binary64 minstd_rand 7 constant_one [(0, 1)] (Fin (1 / 1000)) False 1 1
      = Inr unit_object"
    by (rule construct_unit_object)
  have b: "m_num_threads unit_object + 2048 * length ?evs < (2 :: nat) ^ 64"
    by (simp add: unit_object_def)
  from aggregate_bounds_after_run[OF c b, where n = 2 and rd' = 7]
  have "unat (calls unit_object) = m_num_threads unit_object" by (rule conjunct1)
  then have s: "unat (calls unit_object) = 1" by (simp add: unit_object_def)
  have t2: "take 2 ?evs = [WorkerCheck 0, WorkerBatch 0]" by (simp add: numeral_2_eq_2)
  from batched_unit_run(1) obtain x' g' where
    rs: "?rs =
      \<lparr>shared = unit_object\<lparr>m_done := True, m_total_calls := 2049, m_variance := Fin 0,
          m_thread_calls := [0 \<mapsto> 2049]\<rparr>,
       threads =
         [\<lparr>w_acc = \<lparr>w_M1 = Fin 1, w_S = Fin 0, w_compensator = Fin 0, w_k = 2049\<rparr>,
           w_x = x', w_gen = g', w_status = Exited\<rparr>],
       ctrl = Returned (Inr (Fin 1))\<rparr>"
    and mid: "run binary64 minstd_rand constant_one [WorkerCheck 0, WorkerBatch 0] ?start =
      \<lparr>shared = unit_object\<lparr>m_thread_calls := [0 \<mapsto> 2049]\<rparr>,
       threads =
         [\<lparr>w_acc = \<lparr>w_M1 = Fin 1, w_S = Fin 0, w_compensator = Fin 0, w_k = 2049\<rparr>,
           w_x = x', w_gen = g', w_status = AtLoopHead\<rparr>],
       ctrl = Polling\<rparr>"
    by blast
  have r: "ctrl ?rs = Returned (Inr (Fin 1))" unfolding rs by simp
  have m: "unat (calls (shared ?mid)) = 1"
    unfolding t2 mid by (simp add: calls_def unit_object_def)
  have k: "unat (calls (shared ?rs)) = 2049"
    unfolding rs by (simp add: calls_def)
  have p: "progress (shared ?rs) = 1"
    unfolding rs
    by (simp add: progress_def current_error_estimate_def unit_object_def Real_of_size_def
        Fin_consts)
  show ?thesis
    by (intro conjI c b s r m k p)
qed

text \<open>
  C4, as the claim states it, fails with one thread: when \<^verbatim>\<open>cancel()\<close> comes before the
  worker first tests the flag, the run returns with the total 1, and the aggregation
  has divided the sum 0 of the \<open>S\<close> by \<open>1 - 1\<close>: the variance and \<^verbatim>\<open>progress()\<close> are NaN,
  which is neither at least 0 nor at most 1.
\<close>

theorem variance_nan_after_cancelled_run:
  "construct binary64 minstd_rand 7 constant_one [(0, 1)] (Fin (1 / 1000)) False 1 1
     = Inr unit_object
   \<and> ctrl (run binary64 minstd_rand constant_one [Cancel, WorkerCheck 0, Poll, Join]
         (integrate minstd_rand 7 unit_object)) = Returned (Inr (Fin 1))
   \<and> calls (shared (run binary64 minstd_rand constant_one [Cancel, WorkerCheck 0, Poll, Join]
         (integrate minstd_rand 7 unit_object))) = 1
   \<and> variance (shared (run binary64 minstd_rand constant_one [Cancel, WorkerCheck 0, Poll, Join]
         (integrate minstd_rand 7 unit_object))) = NaN
   \<and> \<not> 0 \<le> variance (shared (run binary64 minstd_rand constant_one
         [Cancel, WorkerCheck 0, Poll, Join] (integrate minstd_rand 7 unit_object)))
   \<and> progress (shared (run binary64 minstd_rand constant_one [Cancel, WorkerCheck 0, Poll, Join]
         (integrate minstd_rand 7 unit_object))) = NaN
   \<and> \<not> 0 \<le> progress (shared (run binary64 minstd_rand constant_one
         [Cancel, WorkerCheck 0, Poll, Join] (integrate minstd_rand 7 unit_object)))"
proof -
  let ?rs = "run binary64 minstd_rand constant_one [Cancel, WorkerCheck 0, Poll, Join]
         (integrate minstd_rand 7 unit_object)"
  have rs: "?rs =
    \<lparr>shared = unit_object\<lparr>m_done := True, m_variance := NaN\<rparr>,
     threads =
       [\<lparr>w_acc = \<lparr>w_M1 = Fin 1, w_S = Fin 0, w_compensator = 0, w_k = 1\<rparr>,
         w_x = [0], w_gen = 48271, w_status = Exited\<rparr>],
     ctrl = Returned (Inr (Fin 1))\<rparr>"
    by (simp add: run_defs minstd_rand_def unit_object_def upt_rec Fin_consts)
  have c: "construct binary64 minstd_rand 7 constant_one [(0, 1)] (Fin (1 / 1000)) False 1 1
      = Inr unit_object"
    by (rule construct_unit_object)
  have r: "ctrl ?rs = Returned (Inr (Fin 1))" unfolding rs by simp
  have k: "calls (shared ?rs) = 1" unfolding rs by (simp add: calls_def unit_object_def)
  have v: "variance (shared ?rs) = NaN" unfolding rs by (simp add: variance_def)
  have nv: "\<not> 0 \<le> variance (shared ?rs)" unfolding v by (simp add: Fin_zero)
  have p: "progress (shared ?rs) = NaN"
    unfolding rs
    by (simp add: progress_def current_error_estimate_def unit_object_def Real_of_size_def
        Fin_consts)
  have np: "\<not> 0 \<le> progress (shared ?rs)" unfolding p by (simp add: Fin_zero)
  show ?thesis
    by (intro conjI c r k v nv p np)
qed

subsection \<open>After the controller has returned\<close>

lemma all_exited_nth:
  "all_exited ws \<Longrightarrow> i < length ws \<Longrightarrow> w_status (ws ! i) = Exited"
  by (simp add: all_exited_def list_all_length)

lemma step_worker_ctrl:
  "ctrl (step L R F (WorkerCheck i) rs) = ctrl rs"
  "ctrl (step L R F (WorkerBatch i) rs) = ctrl rs"
  "ctrl (step L R F Cancel rs) = ctrl rs"
  "ctrl (step L R F (UpdateTarget v) rs) = ctrl rs"
  by (simp_all add: step_def Let_def split: sum.splits)

lemma step_worker_exited:
  assumes "all_exited (threads rs)"
  shows "step L R F (WorkerCheck i) rs = rs" "step L R F (WorkerBatch i) rs = rs"
  using all_exited_nth[OF assms, of i] by (auto simp: step_def)

lemma returned_okI:
  assumes "\<And>r. ctrl rs = Returned r \<Longrightarrow>
        all_exited (threads rs) \<and>
        r = (case m_exception (shared rs) of Some e \<Rightarrow> Inl e | None \<Rightarrow> Inr (m_avg (shared rs))) \<and>
        (m_exception (shared rs) = None \<longrightarrow> m_avg (shared rs) = m_avg (aggregate (shared rs)))"
  shows "returned_ok rs"
  using assms unfolding returned_ok_def by blast

lemma returned_ok_not_returned:
  "(\<And>r. ctrl rs \<noteq> Returned r) \<Longrightarrow> returned_ok rs"
  by (simp add: returned_ok_def)

lemma returned_ok_shared:
  assumes ok: "returned_ok rs" and ss: "same_slots (shared rs) t"
    and e: "m_exception t = m_exception (shared rs)" and a: "m_avg t = m_avg (shared rs)"
  shows "returned_ok (rs\<lparr>shared := t\<rparr>)"
proof -
  note f = same_slots_facts[OF ss]
  have "m_avg (aggregate t) = m_avg (aggregate (shared rs))"
    by (rule aggregate_cong(1)) (simp_all add: f)
  with ok e a show ?thesis by (auto simp: returned_ok_def split: option.splits)
qed

lemma step_returned_ok:
  assumes ok: "returned_ok rs"
  shows "returned_ok (step L R F ev rs)"
proof (cases "\<exists>r. ctrl rs = Returned r")
  case True
  then obtain r where r: "ctrl rs = Returned r" by blast
  with ok have ex: "all_exited (threads rs)" by (simp add: returned_ok_def)
  show ?thesis
  proof (cases ev)
    case (WorkerCheck i)
    with ok step_worker_exited(1)[OF ex] show ?thesis by simp
  next
    case (WorkerBatch i)
    with ok step_worker_exited(2)[OF ex] show ?thesis by simp
  next
    case Poll
    with ok r show ?thesis by (simp add: step_def)
  next
    case Join
    with ok r show ?thesis by (simp add: step_def)
  next
    case Cancel
    have "returned_ok (rs\<lparr>shared := cancel (shared rs)\<rparr>)"
      by (rule returned_ok_shared[OF ok same_slots_simple(3)]) (simp_all add: cancel_def)
    with Cancel show ?thesis by (simp add: step_def)
  next
    case (UpdateTarget v)
    have "returned_ok (rs\<lparr>shared := update_target_error v (shared rs)\<rparr>)"
      by (rule returned_ok_shared[OF ok same_slots_simple(4)]) (simp_all add: update_target_error_def)
    with UpdateTarget show ?thesis by (simp add: step_def)
  next
    case (Restart rd)
    have "returned_ok (integrate R rd (shared rs))"
      by (rule returned_ok_not_returned) (simp add: integrate_parts)
    with Restart r show ?thesis by (simp add: step_def)
  qed
next
  case False
  then have nr: "\<And>r. ctrl rs \<noteq> Returned r" by blast
  show ?thesis
  proof (cases ev)
    case (WorkerCheck i)
    show ?thesis unfolding WorkerCheck
      by (rule returned_ok_not_returned) (simp add: step_worker_ctrl nr)
  next
    case (WorkerBatch i)
    show ?thesis unfolding WorkerBatch
      by (rule returned_ok_not_returned) (simp add: step_worker_ctrl nr)
  next
    case Poll
    show ?thesis unfolding Poll
      by (rule returned_ok_not_returned) (simp add: step_def Let_def nr)
  next
    case Join
    show ?thesis
    proof (cases "ctrl rs = Joining \<and> all_exited (threads rs)")
      case False
      then have "step L R F Join rs = rs" by (auto simp: step_def)
      with ok Join show ?thesis by simp
    next
      case True
      show ?thesis
      proof (cases "m_exception (shared rs)")
        case (Some e)
        with True have "step L R F Join rs = rs\<lparr>ctrl := Returned (Inl e)\<rparr>"
          by (simp add: step_def)
        with True Some Join show ?thesis by (simp add: returned_ok_def)
      next
        case None
        with True have st: "step L R F Join rs =
            rs\<lparr>shared := aggregate (shared rs),
               ctrl := Returned (Inr (m_avg (aggregate (shared rs))))\<rparr>"
          by (simp add: step_def Let_def)
        have "m_avg (aggregate (aggregate (shared rs))) = m_avg (aggregate (shared rs))"
          by (rule aggregate_cong(1)) simp_all
        with True None show ?thesis unfolding Join st by (simp add: returned_ok_def)
      qed
    qed
  next
    case Cancel
    show ?thesis unfolding Cancel
      by (rule returned_ok_not_returned) (simp add: step_worker_ctrl nr)
  next
    case (UpdateTarget v)
    show ?thesis unfolding UpdateTarget
      by (rule returned_ok_not_returned) (simp add: step_worker_ctrl nr)
  next
    case (Restart rd)
    from nr have "step L R F (Restart rd) rs = rs"
      by (cases "ctrl rs") (auto simp: step_def)
    with ok Restart show ?thesis by simp
  qed
qed

lemma run_returned_ok:
  "returned_ok rs \<Longrightarrow> returned_ok (run L R F evs rs)"
proof (induction evs arbitrary: rs)
  case Nil
  then show ?case by (simp add: run_def)
next
  case (Cons ev evs)
  from Cons.IH[OF step_returned_ok[OF Cons.prems]] show ?case by (simp add: run_def)
qed

lemma message_point_nonempty: "x \<noteq> [] \<Longrightarrow> message_point x = x"
  unfolding message_point_def
  by (rule nth_equalityI) (auto simp: nth_append less_Suc_eq_le not_less dest: le_antisym)

lemma batch_loop_add:
  "batch_loop L R t F (j + m) w =
     (case batch_loop L R t F j w of Inl e \<Rightarrow> Inl e | Inr w' \<Rightarrow> batch_loop L R t F m w')"
  by (induction j arbitrary: w) (simp_all split: sum.splits)

lemma batch_loop_Inl_iff:
  "batch_loop L R t F n w = Inl e \<longleftrightarrow>
     (\<exists>j w'. j < n \<and> batch_loop L R t F j w = Inr w' \<and> sample_step L R t F w' = Inl e)"
proof
  assume "batch_loop L R t F n w = Inl e"
  then show "\<exists>j w'. j < n \<and> batch_loop L R t F j w = Inr w' \<and> sample_step L R t F w' = Inl e"
  proof (induction n arbitrary: w)
    case 0
    then show ?case by simp
  next
    case (Suc n)
    show ?case
    proof (cases "sample_step L R t F w")
      case (Inl e')
      with Suc.prems have "e' = e" by simp
      with Inl have "0 < Suc n \<and> batch_loop L R t F 0 w = Inr w \<and> sample_step L R t F w = Inl e"
        by simp
      then show ?thesis by blast
    next
      case (Inr w1)
      with Suc.prems have "batch_loop L R t F n w1 = Inl e" by simp
      from Suc.IH[OF this] obtain j w' where j: "j < n"
        "batch_loop L R t F j w1 = Inr w'" "sample_step L R t F w' = Inl e"
        by blast
      with Inr have "Suc j < Suc n \<and> batch_loop L R t F (Suc j) w = Inr w'
          \<and> sample_step L R t F w' = Inl e"
        by simp
      then show ?thesis by blast
    qed
  qed
next
  assume "\<exists>j w'. j < n \<and> batch_loop L R t F j w = Inr w' \<and> sample_step L R t F w' = Inl e"
  then obtain j w' where j: "j < n" "batch_loop L R t F j w = Inr w'"
    "sample_step L R t F w' = Inl e"
    by blast
  define m where "m = n - Suc j"
  have n: "n = j + Suc m" using j(1) by (simp add: m_def)
  have "batch_loop L R t F (j + Suc m) w = Inl e"
    by (subst batch_loop_add) (simp add: j(2,3))
  then show "batch_loop L R t F n w = Inl e"
    by (simp only: n)
qed

lemma sample_step_nonfinite:
  assumes "m_integrand L t F (fst (fill_x R x g)) = Inr (x', f)" "\<not> isfinite f" "x' \<noteq> []"
  shows "sample_step L R t F (a, x, g) = Inl (DomainError (EvaluatedAt x' f))"
  using assms
  by (simp add: sample_step_def Let_def raise_domain_error_def message_point_nonempty)

lemma sample_step_user_exception:
  assumes "m_integrand L t F (fst (fill_x R x g)) = Inl e"
  shows "sample_step L R t F (a, x, g) = Inl e"
  using assms by (simp add: sample_step_def Let_def)

lemma m_integrand_Inl_iff:
  "m_integrand L t F u = Inl e \<longleftrightarrow>
     F (fst (fold (transform_axis L t) [0..<length u] (u, m_volume t))) = Inl e"
  by (simp add: m_integrand_def Let_def split: sum.splits)

lemma times_nonfinite: "\<not> isfinite y \<Longrightarrow> \<not> isfinite (c * y)"
  by (cases c; cases y; simp)

lemma m_integrand_nonfinite:
  assumes "F (fst (fold (transform_axis L t) [0..<length u] (u, m_volume t))) = Inr y"
    and "\<not> isfinite y"
  shows "\<exists>x' f. m_integrand L t F u = Inr (x', f) \<and> \<not> isfinite f"
  using assms by (simp add: m_integrand_def Let_def times_nonfinite)

subsection \<open>The exception slot along a run\<close>

lemma step_exception:
  "m_exception (shared (step L R F ev rs)) =
     (case raised_by L R F ev rs of Some e \<Rightarrow> Some e | None \<Rightarrow> m_exception (shared rs))"
proof (cases ev)
  case (WorkerCheck i)
  then show ?thesis by (simp add: step_def raised_by_def)
next
  case (WorkerBatch i)
  then show ?thesis
    by (simp add: step_def raised_by_def Let_def store_exception_def split: sum.splits)
next
  case Poll
  then show ?thesis by (simp add: step_def raised_by_def Let_def)
next
  case Join
  then show ?thesis by (simp add: step_def raised_by_def Let_def split: option.splits)
next
  case Cancel
  then show ?thesis by (simp add: step_def raised_by_def cancel_def)
next
  case (UpdateTarget v)
  then show ?thesis by (simp add: step_def raised_by_def update_target_error_def)
next
  case (Restart rd)
  then show ?thesis
    by (simp add: step_def raised_by_def integrate_parts split: controller_status.splits)
qed

lemma run_exception:
  "m_exception (shared (run L R F evs rs)) =
     (if raised L R F evs rs = [] then m_exception (shared rs)
      else Some (last (raised L R F evs rs)))"
proof (induction evs arbitrary: rs)
  case Nil
  show ?case by (simp add: run_def)
next
  case (Cons ev evs)
  have "run L R F (ev # evs) rs = run L R F evs (step L R F ev rs)"
    by (simp add: run_def)
  then show ?case
    using Cons.IH[of "step L R F ev rs"] step_exception[of L R F ev rs]
    by (simp split: option.splits)
qed

section \<open>Failures of the integrand\<close>


text \<open>
  The run of the specification's error scenario, \<open>1/x\<close> on the unit interval without
  perturbation: the first draw of the worker is the smallest one, the point is 0 and
  the value is infinite.
\<close>

lemma singular_first_sample:
  "sample_step binary64 minstd_rand singular_object reciprocal
     (\<lparr>w_M1 = Fin (2147483645 / 1899818558), w_S = Fin 0, w_compensator = 0, w_k = 1\<rparr>,
      [0], 1899818559)
   = Inl (DomainError (EvaluatedAt [Fin 0] PInf))"
  by (simp add: sample_step_def eval_defs singular_object_def reciprocal_def message_point_def)

lemma singular_run:
  "run binary64 minstd_rand reciprocal [WorkerCheck 0, WorkerBatch 0, Poll, Join]
     (integrate minstd_rand 7 singular_object) =
   \<lparr>shared = failed_object,
     threads =
       [\<lparr>w_acc = \<lparr>w_M1 = Fin (2147483645 / 1899818558), w_S = Fin 0, w_compensator = 0,
                 w_k = 1\<rparr>,
         w_x = [0], w_gen = 1899818559, w_status = Exited\<rparr>],
     ctrl = Returned (Inl (DomainError (EvaluatedAt [Fin 0] PInf)))\<rparr>"
  "raised binary64 minstd_rand reciprocal [WorkerCheck 0, WorkerBatch 0, Poll, Join]
     (integrate minstd_rand 7 singular_object) = [DomainError (EvaluatedAt [Fin 0] PInf)]"
proof -
  let ?w = "\<lparr>w_acc = \<lparr>w_M1 = Fin (2147483645 / 1899818558), w_S = Fin 0, w_compensator = 0,
                 w_k = 1\<rparr>,
         w_x = [0], w_gen = 1899818559 :: nat, w_status = AtLoopHead\<rparr>"
  let ?e = "DomainError (EvaluatedAt [Fin 0] PInf)"
  let ?start = "\<lparr>shared = singular_object, threads = [?w], ctrl = Polling\<rparr>"
  let ?checked = "\<lparr>shared = singular_object, threads = [?w\<lparr>w_status := InBatch\<rparr>], ctrl = Polling\<rparr>"
  let ?raised = "\<lparr>shared = store_exception ?e singular_object,
       threads = [?w\<lparr>w_status := Exited\<rparr>], ctrl = Polling\<rparr>"
  let ?polled = "\<lparr>shared = failed_object, threads = [?w\<lparr>w_status := Exited\<rparr>], ctrl = Joining\<rparr>"
  have i: "integrate minstd_rand 7 singular_object = ?start"
    by (simp add: integrate_def spawn_step_def new_worker_def select_seed_def minstd_rand_def
        singular_object_def calls_at_def Ss_at_def averages_at_def Let_def)
  have c: "step binary64 minstd_rand reciprocal (WorkerCheck 0) ?start = ?checked"
    by (simp add: step_def singular_object_def)
  have bl: "batch_loop binary64 minstd_rand singular_object reciprocal magic_calls_before_update
      (\<lparr>w_M1 = Fin (2147483645 / 1899818558), w_S = Fin 0, w_compensator = 0, w_k = 1\<rparr>,
       [0], 1899818559) = Inl ?e"
    by (rule batch_loop_first_raises[OF singular_first_sample])
  then have b: "step binary64 minstd_rand reciprocal (WorkerBatch 0) ?checked = ?raised"
    by (subst step_WorkerBatch_raise[where e = ?e]) simp_all
  have p: "step binary64 minstd_rand reciprocal Poll ?raised = ?polled"
    by (simp add: step_def store_exception_def aggregate_def sum_calls_def aggregate_step_def
        calls_at_def Ss_at_def averages_at_def Let_def Real_of_size_def singular_object_def
        failed_object_def Fin_consts)
  have j: "step binary64 minstd_rand reciprocal Join ?polled =
      \<lparr>shared = failed_object, threads = [?w\<lparr>w_status := Exited\<rparr>], ctrl = Returned (Inl ?e)\<rparr>"
    by (simp add: step_def all_exited_def failed_object_def)
  show "run binary64 minstd_rand reciprocal [WorkerCheck 0, WorkerBatch 0, Poll, Join]
     (integrate minstd_rand 7 singular_object) =
   \<lparr>shared = failed_object,
     threads =
       [\<lparr>w_acc = \<lparr>w_M1 = Fin (2147483645 / 1899818558), w_S = Fin 0, w_compensator = 0,
                 w_k = 1\<rparr>,
         w_x = [0], w_gen = 1899818559, w_status = Exited\<rparr>],
     ctrl = Returned (Inl (DomainError (EvaluatedAt [Fin 0] PInf)))\<rparr>"
    by (simp only: run_def fold_Cons fold_Nil o_apply id_apply i c b p j) simp
  have r1: "raised_by binary64 minstd_rand reciprocal (WorkerCheck 0) ?start = None"
    and r3: "raised_by binary64 minstd_rand reciprocal Poll ?raised = None"
    and r4: "raised_by binary64 minstd_rand reciprocal Join ?polled = None"
    by (simp_all add: raised_by_def)
  have r2: "raised_by binary64 minstd_rand reciprocal (WorkerBatch 0) ?checked = Some ?e"
    using bl by (simp add: raised_by_def)
  show "raised binary64 minstd_rand reciprocal [WorkerCheck 0, WorkerBatch 0, Poll, Join]
     (integrate minstd_rand 7 singular_object) = [?e]"
    by (simp only: raised.simps i c b p j r1 r2 r3 r4 option.case append.simps)
qed



section \<open>Restart\<close>

text \<open>
  C8. A further call of \<^verbatim>\<open>integrate()\<close> after the previous one has returned, normally or
  after a cancellation, changes nothing of the object but the flag, which it clears:
  the slots are the ones the previous run published. It starts one worker per thread
  at the head of its loop whose mean, \<open>S\<close> and count are read from its slot, with a
  zero compensator. The first poll of the new run continues exactly when the error
  estimate of the aggregated slots exceeds the error goal stored at that moment, a
  goal updated after the restart included.
\<close>

theorem restart_resumes_from_slots:
  assumes "ctrl rs = Returned r"
  shows "step L R F (Restart rd) rs = integrate R rd (shared rs)
       \<and> shared (step L R F (Restart rd) rs) = (shared rs)\<lparr>m_done := False\<rparr>
       \<and> m_thread_calls (shared (step L R F (Restart rd) rs)) = m_thread_calls (shared rs)
       \<and> m_thread_averages (shared (step L R F (Restart rd) rs)) = m_thread_averages (shared rs)
       \<and> m_thread_Ss (shared (step L R F (Restart rd) rs)) = m_thread_Ss (shared rs)
       \<and> ctrl (step L R F (Restart rd) rs) = Polling
       \<and> length (threads (step L R F (Restart rd) rs)) = m_num_threads (shared rs)
       \<and> (\<forall>i<m_num_threads (shared rs).
            w_acc (threads (step L R F (Restart rd) rs) ! i) =
              \<lparr>w_M1 = averages_at (shared rs) i, w_S = Ss_at (shared rs) i,
               w_compensator = 0, w_k = calls_at (shared rs) i\<rparr>
            \<and> w_status (threads (step L R F (Restart rd) rs) ! i) = AtLoopHead)
       \<and> (\<forall>v. ctrl (step L R F Poll (step L R F (UpdateTarget v) (step L R F (Restart rd) rs)))
              = (if v < current_error_estimate (aggregate (shared rs)) then Polling else Joining))"
proof -
  have st: "step L R F (Restart rd) rs = integrate R rd (shared rs)"
    using assms by (simp add: step_def)
  have poll: "ctrl (step L R F Poll (step L R F (UpdateTarget v) (integrate R rd (shared rs))))
      = (if v < current_error_estimate (aggregate (shared rs)) then Polling else Joining)" for v
  proof -
    let ?t = "update_target_error v ((shared rs)\<lparr>m_done := False\<rparr>)"
    have ss: "same_slots (shared rs) ?t"
      by (simp add: same_slots_def update_target_error_def)
    note f = same_slots_facts[OF ss]
    have "current_error_estimate (aggregate ?t) = current_error_estimate (aggregate (shared rs))"
      unfolding current_error_estimate_def
      using aggregate_cong(2,3)[OF f(1,4,5,6)] by simp
    then show ?thesis
      by (simp add: step_def integrate_parts Let_def update_target_error_def)
  qed
  show ?thesis
    unfolding st
    using poll by (simp add: integrate_parts slot_acc_def)
qed


lemma cancelled_two_thread_run:
  "run binary64 minstd_rand constant_one [Cancel, WorkerCheck 0, WorkerCheck 1, Poll, Join]
     (integrate minstd_rand 7 two_thread_object) =
    \<lparr>shared = two_thread_object\<lparr>m_done := True, m_variance := Fin 0\<rparr>,
     threads =
       [\<lparr>w_acc = \<lparr>w_M1 = Fin 1, w_S = Fin 0, w_compensator = 0, w_k = 1\<rparr>,
         w_x = [0], w_gen = 48271, w_status = Exited\<rparr>,
        \<lparr>w_acc = \<lparr>w_M1 = Fin 1, w_S = Fin 0, w_compensator = 0, w_k = 1\<rparr>,
         w_x = [0], w_gen = 182605794, w_status = Exited\<rparr>],
     ctrl = Returned (Inr (Fin 1))\<rparr>"
  by (simp add: run_defs minstd_rand_def two_thread_object_def upt_rec Fin_consts)

theorem restart_resumes_from_slots_witness:
  "ctrl (run binary64 minstd_rand constant_one [Cancel, WorkerCheck 0, WorkerCheck 1, Poll, Join]
       (integrate minstd_rand 7 two_thread_object)) = Returned (Inr (Fin 1))
   \<and> shared (step binary64 minstd_rand constant_one (Restart 9)
         (run binary64 minstd_rand constant_one [Cancel, WorkerCheck 0, WorkerCheck 1, Poll, Join]
           (integrate minstd_rand 7 two_thread_object)))
       = two_thread_object\<lparr>m_variance := Fin 0\<rparr>
   \<and> w_acc (threads (step binary64 minstd_rand constant_one (Restart 9)
         (run binary64 minstd_rand constant_one [Cancel, WorkerCheck 0, WorkerCheck 1, Poll, Join]
           (integrate minstd_rand 7 two_thread_object))) ! 1)
       = \<lparr>w_M1 = Fin 1, w_S = Fin 0, w_compensator = 0, w_k = 1\<rparr>
   \<and> ctrl (step binary64 minstd_rand constant_one Poll
         (step binary64 minstd_rand constant_one (UpdateTarget (Fin (- 1)))
           (step binary64 minstd_rand constant_one (Restart 9)
             (run binary64 minstd_rand constant_one
               [Cancel, WorkerCheck 0, WorkerCheck 1, Poll, Join]
               (integrate minstd_rand 7 two_thread_object))))) = Polling
   \<and> ctrl (step binary64 minstd_rand constant_one Poll
         (step binary64 minstd_rand constant_one (UpdateTarget (Fin 5))
           (step binary64 minstd_rand constant_one (Restart 9)
             (run binary64 minstd_rand constant_one
               [Cancel, WorkerCheck 0, WorkerCheck 1, Poll, Join]
               (integrate minstd_rand 7 two_thread_object))))) = Joining"
proof -
  let ?rs = "run binary64 minstd_rand constant_one
      [Cancel, WorkerCheck 0, WorkerCheck 1, Poll, Join]
      (integrate minstd_rand 7 two_thread_object)"
  let ?rs' = "step binary64 minstd_rand constant_one (Restart 9) ?rs"
  have r: "ctrl ?rs = Returned (Inr (Fin 1))"
    unfolding cancelled_two_thread_run by simp
  have sh: "shared ?rs = two_thread_object\<lparr>m_done := True, m_variance := Fin 0\<rparr>"
    unfolding cancelled_two_thread_run by simp
  note t = restart_resumes_from_slots[OF r, of binary64 minstd_rand constant_one 9]
  from t have "shared ?rs' = (shared ?rs)\<lparr>m_done := False\<rparr>" by blast
  then have a: "shared ?rs' = two_thread_object\<lparr>m_variance := Fin 0\<rparr>"
    unfolding sh by (simp add: two_thread_object_def)
  from t have "\<forall>i<m_num_threads (shared ?rs).
      w_acc (threads ?rs' ! i) =
        \<lparr>w_M1 = averages_at (shared ?rs) i, w_S = Ss_at (shared ?rs) i,
         w_compensator = 0, w_k = calls_at (shared ?rs) i\<rparr>
      \<and> w_status (threads ?rs' ! i) = AtLoopHead"
    by blast
  then have "w_acc (threads ?rs' ! 1) =
        \<lparr>w_M1 = averages_at (shared ?rs) 1, w_S = Ss_at (shared ?rs) 1,
         w_compensator = 0, w_k = calls_at (shared ?rs) 1\<rparr>"
    unfolding sh by (simp add: two_thread_object_def)
  then have b: "w_acc (threads ?rs' ! 1) = \<lparr>w_M1 = Fin 1, w_S = Fin 0, w_compensator = 0, w_k = 1\<rparr>"
    unfolding sh by (simp add: two_thread_object_def averages_at_def Ss_at_def calls_at_def)
  have est: "current_error_estimate (aggregate (shared ?rs)) = Fin 0"
    unfolding sh
    by (simp add: current_error_estimate_def aggregate_def sum_calls_def aggregate_step_def
        calls_at_def Ss_at_def averages_at_def Let_def Real_of_size_def two_thread_object_def
        upt_rec Fin_consts)
  from t have p: "\<forall>v. ctrl (step binary64 minstd_rand constant_one Poll
        (step binary64 minstd_rand constant_one (UpdateTarget v) ?rs'))
      = (if v < current_error_estimate (aggregate (shared ?rs)) then Polling else Joining)"
    by blast
  have c: "ctrl (step binary64 minstd_rand constant_one Poll
        (step binary64 minstd_rand constant_one (UpdateTarget (Fin (- 1))) ?rs')) = Polling"
    unfolding p[rule_format] est by simp
  have d: "ctrl (step binary64 minstd_rand constant_one Poll
        (step binary64 minstd_rand constant_one (UpdateTarget (Fin 5)) ?rs')) = Joining"
    unfolding p[rule_format] est by simp
  show ?thesis
    by (intro conjI r a b c d)
qed

end
